theory Spec2Isabelle
  imports Complex_Main "HOL-Library.Log_Nat"
begin

section \<open>Class lists and script errors\<close>

text \<open>
  An element's \<^verbatim>\<open>classList\<close> is an ordered list of tokens.  \<^verbatim>\<open>add\<close> appends a token
  that is not yet there, \<^verbatim>\<open>remove\<close> deletes every occurrence, \<^verbatim>\<open>toggle\<close> removes a
  present token and adds an absent one, \<^verbatim>\<open>contains\<close> tests membership.
\<close>

type_synonym classList = "string list"

definition classList_contains :: "classList \<Rightarrow> string \<Rightarrow> bool" where
  "classList_contains cl c = (c \<in> set cl)"

definition classList_add :: "classList \<Rightarrow> string \<Rightarrow> classList" where
  "classList_add cl c = (if c \<in> set cl then cl else cl @ [c])"

definition classList_remove :: "classList \<Rightarrow> string \<Rightarrow> classList" where
  "classList_remove cl c = filter (\<lambda>x. x \<noteq> c) cl"

definition classList_toggle :: "classList \<Rightarrow> string \<Rightarrow> classList" where
  "classList_toggle cl c =
     (if c \<in> set cl then classList_remove cl c else classList_add cl c)"

text \<open>
  The only exception the modelled handlers can raise is the \<^verbatim>\<open>TypeError\<close> of reading a
  property of \<^verbatim>\<open>undefined\<close> or \<^verbatim>\<open>null\<close>.  A handler returns the error, if any,
  together with the state as the statements executed before the throw left it.
\<close>

datatype js_error = TypeError

section \<open>TestimonialsSlider\<close>

text \<open>
  \<^verbatim>\<open>currentSlide\<close> is a script number.  The values it takes are the naturals and, after
  a remainder by zero, \<^verbatim>\<open>NaN\<close>.
\<close>

datatype slide_index = Slide nat | SlideNaN

fun js_succ :: "slide_index \<Rightarrow> slide_index" where
  "js_succ (Slide i) = Slide (i + 1)"
| "js_succ SlideNaN = SlideNaN"

fun js_mod :: "slide_index \<Rightarrow> nat \<Rightarrow> slide_index" where
  "js_mod (Slide a) n = (if n = 0 then SlideNaN else Slide (a mod n))"
| "js_mod SlideNaN n = SlideNaN"

text \<open>
  The controller's fields, the class lists of the elements it holds, and the part of the
  window it uses: the table \<open>timers\<close> of live intervals (handle and delay in
  milliseconds) and the next handle \<^verbatim>\<open>setInterval\<close> hands out.  \<open>interval = None\<close> is
  the \<^verbatim>\<open>undefined\<close> of the field before the first \<^verbatim>\<open>startAutoPlay\<close>.
\<close>

record slider =
  cards :: "classList list"
  dots :: "classList list"
  currentSlide :: slide_index
  autoPlay :: bool
  intervalTime :: nat
  interval :: "nat option"
  timers :: "(nat \<times> nat) list"
  next_handle :: nat

definition clearInterval :: "nat option \<Rightarrow> (nat \<times> nat) list \<Rightarrow> (nat \<times> nat) list" where
  "clearInterval h tbl =
     (case h of None \<Rightarrow> tbl | Some k \<Rightarrow> filter (\<lambda>t. fst t \<noteq> k) tbl)"

definition createDots :: "slider \<Rightarrow> slider" where
  "createDots s =
     s\<lparr>dots := map (\<lambda>index. if index = 0 then classList_add (classList_add [] ''dot'') ''active''
                              else classList_add [] ''dot'')
                    [0 ..< length (cards s)]\<rparr>"

definition goToSlide :: "slider \<Rightarrow> slide_index \<Rightarrow> js_error option \<times> slider" where
  "goToSlide s index =
     (let s1 = s\<lparr>cards := map (\<lambda>card. classList_remove card ''active'') (cards s)\<rparr>;
          s2 = s1\<lparr>dots := map (\<lambda>dot. classList_remove dot ''active'') (dots s1)\<rparr>
      in case index of
           SlideNaN \<Rightarrow> (Some TypeError, s2)
         | Slide i \<Rightarrow>
             if length (cards s2) \<le> i then (Some TypeError, s2)
             else
               let s3 = s2\<lparr>cards := (cards s2)[i := classList_add (cards s2 ! i) ''active'']\<rparr>
               in if length (dots s3) \<le> i then (Some TypeError, s3)
                  else
                    (None, s3\<lparr>dots := (dots s3)[i := classList_add (dots s3 ! i) ''active''],
                               currentSlide := Slide i\<rparr>))"

definition startAutoPlay :: "slider \<Rightarrow> slider" where
  "startAutoPlay s =
     (if \<not> autoPlay s then s
      else
        let tbl = clearInterval (interval s) (timers s);
            h = next_handle s
        in s\<lparr>timers := tbl @ [(h, intervalTime s)], interval := Some h, next_handle := Suc h\<rparr>)"

text \<open>The callback handed to \<^verbatim>\<open>setInterval\<close> in \<^verbatim>\<open>startAutoPlay\<close>.\<close>

definition interval_callback :: "slider \<Rightarrow> js_error option \<times> slider" where
  "interval_callback s =
     (let s1 = s\<lparr>currentSlide := js_mod (js_succ (currentSlide s)) (length (cards s))\<rparr>
      in goToSlide s1 (currentSlide s1))"

definition init_slider :: "slider \<Rightarrow> slider" where
  "init_slider s = startAutoPlay (createDots s)"

text \<open>
  The constructor, over the class lists of the \<^verbatim>\<open>.testimonial-card\<close> elements of the
  markup.  The containers \<^verbatim>\<open>.slider-dots\<close> and \<^verbatim>\<open>.testimonials-slider\<close> are taken to
  exist (the constructor dereferences both).
\<close>

definition TestimonialsSlider :: "classList list \<Rightarrow> slider" where
  "TestimonialsSlider cs =
     init_slider \<lparr>cards = cs, dots = [], currentSlide = Slide 0, autoPlay = True,
                  intervalTime = 5000, interval = None, timers = [], next_handle = 1\<rparr>"

text \<open>
  What can happen to the carousel after construction: a click on the dot at a position, the
  pointer entering or leaving the slider, and the window firing the interval with a given
  handle (only a live interval fires).
\<close>

datatype slider_event = DotClick nat | MouseEnter | MouseLeave | IntervalFire nat

fun slider_handle :: "slider \<Rightarrow> slider_event \<Rightarrow> js_error option \<times> slider" where
  "slider_handle s (DotClick index) =
     (if index < length (dots s) then goToSlide s (Slide index) else (None, s))"
| "slider_handle s MouseEnter = (None, s\<lparr>autoPlay := False\<rparr>)"
| "slider_handle s MouseLeave = (None, startAutoPlay (s\<lparr>autoPlay := True\<rparr>))"
| "slider_handle s (IntervalFire h) =
     (if h \<in> fst ` set (timers s) then interval_callback s else (None, s))"

text \<open>
  An exception thrown by a handler is reported and does not stop later events: the run
  collects the errors and carries the state on.
\<close>

fun slider_run :: "slider \<Rightarrow> slider_event list \<Rightarrow> js_error list \<times> slider" where
  "slider_run s [] = ([], s)"
| "slider_run s (e # es) =
     (case slider_handle s e of
        (err, s1) \<Rightarrow>
          (case slider_run s1 es of
             (errs, s2) \<Rightarrow> ((case err of None \<Rightarrow> [] | Some x \<Rightarrow> [x]) @ errs, s2)))"

text \<open>The timed advance, fired \<open>n\<close> times in a row.\<close>

fun advance_times :: "nat \<Rightarrow> slider \<Rightarrow> js_error list \<times> slider" where
  "advance_times 0 s = ([], s)"
| "advance_times (Suc n) s =
     (case interval_callback s of
        (err, s1) \<Rightarrow>
          (case advance_times n s1 of
             (errs, s2) \<Rightarrow> ((case err of None \<Rightarrow> [] | Some x \<Rightarrow> [x]) @ errs, s2)))"

definition count_active :: "classList list \<Rightarrow> nat" where
  "count_active els = length (filter (\<lambda>el. classList_contains el ''active'') els)"

text \<open>A page with three testimonial cards, the first marked active in the markup.\<close>

abbreviation three_cards :: slider where
  "three_cards \<equiv>
     TestimonialsSlider
       [[''testimonial-card'', ''active''], [''testimonial-card''], [''testimonial-card'']]"

section \<open>DestinationFilter\<close>

text \<open>
  A filter button with its class list and its \<^verbatim>\<open>data-filter\<close> attribute, a destination
  card with its class list, its \<^verbatim>\<open>data-category\<close> attribute and its inline
  \<^verbatim>\<open>animation\<close> style.  A \<^verbatim>\<open>dataset\<close> entry of an absent attribute is \<^verbatim>\<open>undefined\<close>,
  here \<open>None\<close>; \<^verbatim>\<open>===\<close> on such values is equality.
\<close>

record filter_btn =
  btn_classList :: classList
  btn_filter :: "string option"

record destination_card =
  card_classList :: classList
  card_category :: "string option"
  card_animation :: string

record destination_filter =
  filterBtns :: "filter_btn list"
  destination_cards :: "destination_card list"

definition filter_cards :: "string option \<Rightarrow> destination_card list \<Rightarrow> destination_card list" where
  "filter_cards category cs =
     map (\<lambda>dcard.
            if category = Some ''all'' \<or> card_category dcard = category
            then dcard\<lparr>card_classList := classList_remove (card_classList dcard) ''hidden'',
                      card_animation := ''fadeIn 0.5s ease forwards''\<rparr>
            else dcard\<lparr>card_classList := classList_add (card_classList dcard) ''hidden''\<rparr>)
         cs"

text \<open>
  The click listener of the button at position \<open>i\<close> of \<^verbatim>\<open>filterBtns\<close>.  Only the buttons
  of that list have the listener, so a position outside the list has none.
\<close>

definition filter_click :: "destination_filter \<Rightarrow> nat \<Rightarrow> destination_filter" where
  "filter_click df i =
     (if length (filterBtns df) \<le> i then df
      else
        let bs = map (\<lambda>b. b\<lparr>btn_classList := classList_remove (btn_classList b) ''active''\<rparr>)
                     (filterBtns df);
            bs1 = bs[i := (bs ! i)\<lparr>btn_classList := classList_add (btn_classList (bs ! i)) ''active''\<rparr>]
        in df\<lparr>filterBtns := bs1,
               destination_cards := filter_cards (btn_filter (bs1 ! i)) (destination_cards df)\<rparr>)"

definition filter_clicks :: "destination_filter \<Rightarrow> nat list \<Rightarrow> destination_filter" where
  "filter_clicks df clicks = foldl filter_click df clicks"

definition active_buttons :: "destination_filter \<Rightarrow> nat" where
  "active_buttons df =
     length (filter (\<lambda>b. classList_contains (btn_classList b) ''active'') (filterBtns df))"

definition card_visible :: "destination_card \<Rightarrow> bool" where
  "card_visible dcard = (\<not> classList_contains (card_classList dcard) ''hidden'')"

text \<open>A page with three filter buttons and three cards, one of them hidden in the markup.\<close>

abbreviation destinations_page :: destination_filter where
  "destinations_page \<equiv>
     \<lparr>filterBtns =
        [\<lparr>btn_classList = [''filter-btn'', ''active''], btn_filter = Some ''all''\<rparr>,
         \<lparr>btn_classList = [''filter-btn''], btn_filter = Some ''beach''\<rparr>,
         \<lparr>btn_classList = [''filter-btn''], btn_filter = Some ''mountain''\<rparr>],
      destination_cards =
        [\<lparr>card_classList = [''destination-card''], card_category = Some ''beach'',
          card_animation = ''''\<rparr>,
         \<lparr>card_classList = [''destination-card'', ''hidden''], card_category = Some ''mountain'',
          card_animation = ''''\<rparr>,
         \<lparr>card_classList = [''destination-card''], card_category = None,
          card_animation = ''''\<rparr>]\<rparr>"

section \<open>LikeButtonHandler\<close>

text \<open>
  A \<^verbatim>\<open>.card-btn\<close> button: its class list and the first \<^verbatim>\<open>i\<close> element inside it, if
  there is one, with that icon's class list and inline \<^verbatim>\<open>color\<close> style.
\<close>

record like_icon =
  icon_classList :: classList
  icon_color :: string

record like_button =
  like_classList :: classList
  like_icon :: "like_icon option"

text \<open>
  The click listener.  \<^verbatim>\<open>querySelector\<close> returns \<^verbatim>\<open>null\<close> for a button without an
  icon, and the first use of \<^verbatim>\<open>icon.classList\<close> then throws, after the toggle.
\<close>

definition like_click :: "like_button \<Rightarrow> js_error option \<times> like_button" where
  "like_click btn =
     (let btn1 = btn\<lparr>like_classList := classList_toggle (like_classList btn) ''liked''\<rparr>
      in case like_icon btn1 of
           None \<Rightarrow> (Some TypeError, btn1)
         | Some icon \<Rightarrow>
             if classList_contains (like_classList btn1) ''liked''
             then (None, btn1\<lparr>like_icon := Some
                     \<lparr>icon_classList = classList_add (classList_remove (icon_classList icon) ''far'') ''fas'',
                      icon_color = ''#e94560''\<rparr>\<rparr>)
             else (None, btn1\<lparr>like_icon := Some
                     \<lparr>icon_classList = classList_add (classList_remove (icon_classList icon) ''fas'') ''far'',
                      icon_color = ''''\<rparr>\<rparr>))"

text \<open>
  The state triple of a like button: whether the button carries \<^verbatim>\<open>liked\<close>, which of the
  two icon style classes \<^verbatim>\<open>far\<close> and \<^verbatim>\<open>fas\<close> the icon carries, and the icon's inline
  colour.
\<close>

definition like_state :: "like_button \<Rightarrow> (bool \<times> (bool \<times> bool) \<times> string) option" where
  "like_state btn =
     (case like_icon btn of
        None \<Rightarrow> None
      | Some icon \<Rightarrow>
          Some (classList_contains (like_classList btn) ''liked'',
                (classList_contains (icon_classList icon) ''far'',
                 classList_contains (icon_classList icon) ''fas''),
                icon_color icon))"

text \<open>
  The unliked state of the markup: no \<^verbatim>\<open>liked\<close> class, an icon carrying \<^verbatim>\<open>far\<close>, an empty
  inline colour.
\<close>

definition is_unliked :: "like_button \<Rightarrow> bool" where
  "is_unliked btn =
     (case like_icon btn of
        None \<Rightarrow> False
      | Some icon \<Rightarrow>
          \<not> classList_contains (like_classList btn) ''liked'' \<and>
          classList_contains (icon_classList icon) ''far'' \<and> icon_color icon = '''')"

definition unliked_state :: "(bool \<times> (bool \<times> bool) \<times> string) option" where
  "unliked_state = Some (False, (True, False), '''')"

definition liked_state :: "(bool \<times> (bool \<times> bool) \<times> string) option" where
  "liked_state = Some (True, (False, True), ''#e94560'')"

abbreviation heart_button :: like_button where
  "heart_button \<equiv>
     \<lparr>like_classList = [''card-btn''],
      like_icon = Some \<lparr>icon_classList = [''far'', ''fa-heart''], icon_color = ''''\<rparr>\<rparr>"

section \<open>Loader, Navigation (hamburger) and SearchModal\<close>

text \<open>
  The part of the document these three controllers hold: the class lists of the elements
  \<^verbatim>\<open>#loader\<close>, \<^verbatim>\<open>#hamburger\<close>, \<^verbatim>\<open>#navMenu\<close> and \<^verbatim>\<open>#searchModal\<close> (\<open>None\<close> when
  \<^verbatim>\<open>getElementById\<close> returns \<^verbatim>\<open>null\<close>), the inline \<^verbatim>\<open>overflow\<close> style of
  \<^verbatim>\<open>document.body\<close>, and the number of focus calls that \<^verbatim>\<open>open\<close> has scheduled.  Elements
  with different ids are different elements.
\<close>

record page =
  loader :: "classList option"
  hamburger :: "classList option"
  navMenu :: "classList option"
  searchModal :: "classList option"
  body_overflow :: string
  scheduled_focus :: nat



definition SearchModal_open :: "page \<Rightarrow> js_error option \<times> page" where
  "SearchModal_open p =
     (case searchModal p of
        None \<Rightarrow> (Some TypeError, p)
      | Some m \<Rightarrow>
          (None, p\<lparr>searchModal := Some (classList_add m ''active''), body_overflow := ''hidden'',
                   scheduled_focus := Suc (scheduled_focus p)\<rparr>))"

definition SearchModal_close :: "page \<Rightarrow> js_error option \<times> page" where
  "SearchModal_close p =
     (case searchModal p of
        None \<Rightarrow> (Some TypeError, p)
      | Some m \<Rightarrow>
          (None, p\<lparr>searchModal := Some (classList_remove m ''active''), body_overflow := ''''\<rparr>))"

text \<open>
  Where a click can land, as far as the search overlay's listeners tell the targets apart:
  on the trigger button \<^verbatim>\<open>#searchBtn\<close>, on the close button \<^verbatim>\<open>#searchClose\<close>, on the
  overlay element \<^verbatim>\<open>#searchModal\<close> itself (its backdrop), on another element inside the
  overlay (its content), or elsewhere.  A click inside the overlay bubbles to the overlay's
  listener, which closes only when the target is the overlay itself.
\<close>

datatype click_target = OnSearchBtn | OnSearchClose | OnBackdrop | OnContent | Elsewhere

fun search_click :: "page \<Rightarrow> click_target \<Rightarrow> js_error option \<times> page" where
  "search_click p OnSearchBtn = SearchModal_open p"
| "search_click p OnSearchClose = SearchModal_close p"
| "search_click p OnBackdrop =
     (case searchModal p of None \<Rightarrow> (None, p) | Some m \<Rightarrow> SearchModal_close p)"
| "search_click p OnContent = (None, p)"
| "search_click p Elsewhere = (None, p)"

definition search_keydown :: "page \<Rightarrow> string \<Rightarrow> js_error option \<times> page" where
  "search_keydown p key =
     (if key = ''Escape'' \<and>
         (case searchModal p of None \<Rightarrow> False | Some m \<Rightarrow> classList_contains m ''active'')
      then SearchModal_close p else (None, p))"

definition search_is_open :: "page \<Rightarrow> bool" where
  "search_is_open p =
     (case searchModal p of None \<Rightarrow> False | Some m \<Rightarrow> classList_contains m ''active'')"

text \<open>A page as the markup delivers it: every element present, nothing opened yet.\<close>

abbreviation fresh_page :: page where
  "fresh_page \<equiv>
     \<lparr>loader = Some [''loader''], hamburger = Some [''hamburger''], navMenu = Some [''nav-menu''],
      searchModal = Some [''search-modal''], body_overflow = '''', scheduled_focus = 0\<rparr>"

section \<open>GalleryLightbox\<close>

text \<open>
  The nodes \<^verbatim>\<open>openLightbox\<close> creates are numbered in order of creation.  The document
  holds the lightbox nodes attached to the body, the style nodes \<^verbatim>\<open>openLightbox\<close> attached
  to the head, and the \<^verbatim>\<open>keydown\<close> listeners it registered on the document, each the
  closure over its own lightbox and style node; these listeners are never removed.
\<close>

record document =
  head_styles :: "nat list"
  body_lightboxes :: "nat list"
  keydown_listeners :: "(nat \<times> nat) list"
  created_nodes :: nat

text \<open>\<^verbatim>\<open>node.remove()\<close>: detaches the node; on a detached node it does nothing.\<close>

definition node_remove :: "nat \<Rightarrow> nat list \<Rightarrow> nat list" where
  "node_remove n children = filter (\<lambda>c. c \<noteq> n) children"

text \<open>The two statements every dismissal path runs: \<^verbatim>\<open>lightbox.remove(); style.remove()\<close>.\<close>

definition lightbox_teardown :: "nat \<times> nat \<Rightarrow> document \<Rightarrow> document" where
  "lightbox_teardown ls d =
     d\<lparr>body_lightboxes := node_remove (fst ls) (body_lightboxes d),
       head_styles := node_remove (snd ls) (head_styles d)\<rparr>"

text \<open>
  \<^verbatim>\<open>openLightbox(img)\<close>, with \<open>img = None\<close> for a gallery item that has no image:
  \<^verbatim>\<open>img.src\<close> then throws after the \<^verbatim>\<open>div\<close> was created and before anything is attached.
  Otherwise the result is the pair of the new lightbox and style node.
\<close>

definition openLightbox ::
  "document \<Rightarrow> (string \<times> string) option \<Rightarrow> (js_error + nat \<times> nat) \<times> document" where
  "openLightbox d img =
     (let lightbox = created_nodes d;
          d1 = d\<lparr>created_nodes := Suc (created_nodes d)\<rparr>
      in case img of
           None \<Rightarrow> (Inl TypeError, d1)
         | Some src_alt \<Rightarrow>
             let style = created_nodes d1
             in (Inr (lightbox, style),
                 d1\<lparr>created_nodes := Suc (created_nodes d1),
                    head_styles := head_styles d1 @ [style],
                    body_lightboxes := body_lightboxes d1 @ [lightbox],
                    keydown_listeners := keydown_listeners d1 @ [(lightbox, style)]\<rparr>))"

text \<open>
  A click inside an open lightbox lands on the lightbox element itself (the backdrop), on
  its close button (or the icon in it), or on the rest of its content.  The close button's
  listener tears down; the click then bubbles to the lightbox's listener, which tears down
  only when the target is the lightbox itself.
\<close>

datatype lightbox_target = LightboxItself | LightboxClose | LightboxContent

fun lightbox_click :: "nat \<times> nat \<Rightarrow> lightbox_target \<Rightarrow> document \<Rightarrow> document" where
  "lightbox_click ls LightboxClose d = lightbox_teardown ls d"
| "lightbox_click ls LightboxItself d = lightbox_teardown ls d"
| "lightbox_click ls LightboxContent d = d"

text \<open>A key press runs every registered listener, in order of registration.\<close>

definition document_keydown :: "string \<Rightarrow> document \<Rightarrow> document" where
  "document_keydown key d =
     foldl (\<lambda>d1 ls. if key = ''Escape'' then lightbox_teardown ls d1 else d1) d (keydown_listeners d)"

abbreviation empty_document :: document where
  "empty_document \<equiv>
     \<lparr>head_styles = [], body_lightboxes = [], keydown_listeners = [], created_nodes = 0\<rparr>"

section \<open>Script numbers\<close>

text \<open>
  A script number is a double: a finite value, one of the two infinities, or \<^verbatim>\<open>NaN\<close>.
  A finite double is taken as the rational it denotes; the negative zero is not told apart
  from zero.  Every arithmetic operation yields the double nearest to the exact result,
  ties going to the even significand.
\<close>

datatype jsnum = Fin rat | PosInf | NegInf | NaN

text \<open>
  \<open>ilog2 x\<close> is the binary exponent of a positive \<open>x\<close>: the integer \<open>e\<close> with
  \<open>2 ^ e \<le> x < 2 ^ (e + 1)\<close>.  \<open>quantum x\<close> is the spacing of the doubles around
  \<open>x\<close>: 53 significant bits in the normal range, and the fixed spacing \<open>2 ^ (- 1074)\<close>
  of the subnormal numbers, below \<open>2 ^ (- 1022)\<close>.
\<close>

definition ilog2 :: "rat \<Rightarrow> int" where
  "ilog2 x = (if 1 \<le> x then bitlen \<lfloor>x\<rfloor> - 1 else - bitlen (\<lceil>1 / x\<rceil> - 1))"

definition round_half_even :: "rat \<Rightarrow> int" where
  "round_half_even x =
     (if x - of_int \<lfloor>x\<rfloor> < 1 / 2 then \<lfloor>x\<rfloor>
      else if 1 / 2 < x - of_int \<lfloor>x\<rfloor> then \<lfloor>x\<rfloor> + 1
      else if even \<lfloor>x\<rfloor> then \<lfloor>x\<rfloor> else \<lfloor>x\<rfloor> + 1)"

definition quantum :: "rat \<Rightarrow> rat" where
  "quantum a = 2 powi (max (ilog2 a) (- 1022) - 52)"

text \<open>
  \<open>to_double x\<close>: the double nearest to the rational \<open>x\<close>, an infinity when the rounded
  magnitude reaches \<open>2 ^ 1024\<close>.
\<close>

definition to_double :: "rat \<Rightarrow> jsnum" where
  "to_double x =
     (if x = 0 then Fin 0
      else if 2 ^ 1024 \<le> of_int (round_half_even (\<bar>x\<bar> / quantum \<bar>x\<bar>)) * quantum \<bar>x\<bar>
      then (if 0 < x then PosInf else NegInf)
      else Fin (sgn x * (of_int (round_half_even (\<bar>x\<bar> / quantum \<bar>x\<bar>)) * quantum \<bar>x\<bar>)))"

text \<open>
  Sum, difference, quotient, product, comparison and \<^verbatim>\<open>Math.floor\<close>.  A zero divisor is
  the positive zero that a difference of two equal numbers yields.
\<close>

fun js_add :: "jsnum \<Rightarrow> jsnum \<Rightarrow> jsnum" where
  "js_add (Fin a) (Fin b) = to_double (a + b)"
| "js_add NaN y = NaN"
| "js_add x NaN = NaN"
| "js_add PosInf NegInf = NaN"
| "js_add NegInf PosInf = NaN"
| "js_add PosInf y = PosInf"
| "js_add NegInf y = NegInf"
| "js_add x PosInf = PosInf"
| "js_add x NegInf = NegInf"

fun js_neg :: "jsnum \<Rightarrow> jsnum" where
  "js_neg (Fin a) = Fin (- a)"
| "js_neg PosInf = NegInf"
| "js_neg NegInf = PosInf"
| "js_neg NaN = NaN"

definition js_sub :: "jsnum \<Rightarrow> jsnum \<Rightarrow> jsnum" where
  "js_sub x y = js_add x (js_neg y)"

fun js_div :: "jsnum \<Rightarrow> jsnum \<Rightarrow> jsnum" where
  "js_div (Fin a) (Fin b) =
     (if b = 0 then (if a = 0 then NaN else if 0 < a then PosInf else NegInf)
      else to_double (a / b))"
| "js_div (Fin a) PosInf = Fin 0"
| "js_div (Fin a) NegInf = Fin 0"
| "js_div PosInf (Fin b) = (if 0 \<le> b then PosInf else NegInf)"
| "js_div NegInf (Fin b) = (if 0 \<le> b then NegInf else PosInf)"
| "js_div x y = NaN"

fun js_mul :: "jsnum \<Rightarrow> jsnum \<Rightarrow> jsnum" where
  "js_mul (Fin a) (Fin b) = to_double (a * b)"
| "js_mul PosInf (Fin b) = (if b = 0 then NaN else if 0 < b then PosInf else NegInf)"
| "js_mul NegInf (Fin b) = (if b = 0 then NaN else if 0 < b then NegInf else PosInf)"
| "js_mul (Fin a) PosInf = (if a = 0 then NaN else if 0 < a then PosInf else NegInf)"
| "js_mul (Fin a) NegInf = (if a = 0 then NaN else if 0 < a then NegInf else PosInf)"
| "js_mul PosInf PosInf = PosInf"
| "js_mul NegInf NegInf = PosInf"
| "js_mul PosInf NegInf = NegInf"
| "js_mul NegInf PosInf = NegInf"
| "js_mul x y = NaN"

fun js_lt :: "jsnum \<Rightarrow> jsnum \<Rightarrow> bool" where
  "js_lt (Fin a) (Fin b) = (a < b)"
| "js_lt NaN y = False"
| "js_lt x NaN = False"
| "js_lt x NegInf = False"
| "js_lt PosInf y = False"
| "js_lt NegInf y = True"
| "js_lt x PosInf = True"

fun js_floor :: "jsnum \<Rightarrow> jsnum" where
  "js_floor (Fin a) = Fin (of_int \<lfloor>a\<rfloor>)"
| "js_floor x = x"

section \<open>ScrollProgress\<close>

text \<open>
  The inline \<^verbatim>\<open>width\<close> of the progress bar is empty or a percentage.  The handler assigns
  the string of a number followed by \<^verbatim>\<open>%\<close>; the string of a finite number names that
  number, so the model keeps the number.  The assignment sets the style when the string is a
  valid width, a finite number that is not negative; the strings \<^verbatim>\<open>NaN%\<close> and
  \<^verbatim>\<open>Infinity%\<close> and a negative percentage are not, and the assignment leaves the style as
  it was.
\<close>

datatype css_width = NoWidth | Percent rat

fun style_set_width :: "css_width \<Rightarrow> jsnum \<Rightarrow> css_width" where
  "style_set_width w (Fin a) = (if 0 \<le> a then Percent a else w)"
| "style_set_width w x = w"

text \<open>
  The controller: the width of the bar \<^verbatim>\<open>#scrollProgress\<close>, which is taken to exist, and
  the flag \<^verbatim>\<open>inThrottle\<close> of the wrapper that \<^verbatim>\<open>Utils.throttle\<close> returns.  The window
  supplies \<^verbatim>\<open>scrollY\<close>, a double, and the integers \<^verbatim>\<open>scrollHeight\<close> of the document
  and \<^verbatim>\<open>innerHeight\<close>.
\<close>

record scroll_progress =
  bar_width :: css_width
  inThrottle :: bool

definition scrollPercent :: "rat \<Rightarrow> int \<Rightarrow> int \<Rightarrow> jsnum" where
  "scrollPercent scrollY scrollHeight innerHeight =
     (let scrollTop = Fin scrollY;
          docHeight = js_sub (Fin (of_int scrollHeight)) (Fin (of_int innerHeight))
      in js_mul (js_div scrollTop docHeight) (Fin 100))"

text \<open>The function wrapped by the throttle: the update of the bar.\<close>

definition progress_update :: "rat \<Rightarrow> int \<Rightarrow> int \<Rightarrow> scroll_progress \<Rightarrow> scroll_progress" where
  "progress_update scrollY scrollHeight innerHeight sp =
     sp\<lparr>bar_width := style_set_width (bar_width sp) (scrollPercent scrollY scrollHeight innerHeight)\<rparr>"

text \<open>
  The scroll listener, the throttled update: it runs the update and raises the flag unless
  the flag is up; the timeout set then lowers the flag 50 ms later.
\<close>

definition on_scroll :: "rat \<Rightarrow> int \<Rightarrow> int \<Rightarrow> scroll_progress \<Rightarrow> scroll_progress" where
  "on_scroll scrollY scrollHeight innerHeight sp =
     (if \<not> inThrottle sp
      then (progress_update scrollY scrollHeight innerHeight sp)\<lparr>inThrottle := True\<rparr>
      else sp)"

definition throttle_timeout :: "scroll_progress \<Rightarrow> scroll_progress" where
  "throttle_timeout sp = sp\<lparr>inThrottle := False\<rparr>"

section \<open>CounterAnimation\<close>

text \<open>
  A script string is a list of UTF-16 code units; \<open>js\<close> gives the code units of a literal
  of the source, which holds ASCII characters only.
\<close>

type_synonym js_string = "nat list"

definition js :: "string \<Rightarrow> js_string" where
  "js s = map of_char s"

text \<open>
  \<^verbatim>\<open>parseInt\<close> of a string, with no radix given: leading white space and line
  terminators are skipped, a sign is read, a prefix \<^verbatim>\<open>0x\<close> or \<^verbatim>\<open>0X\<close> selects radix 16
  and radix 10 is used otherwise, and the longest run of digits of that radix is read; the
  result is the double nearest to the integer the digits denote, and \<^verbatim>\<open>NaN\<close> when there
  is no digit.  (The language lets an implementation approximate a decimal integer of more
  than 20 significant digits; up to 20 digits the result is this one.)
\<close>

definition is_space :: "nat \<Rightarrow> bool" where
  "is_space u =
     (u \<in> set [0x09, 0x0A, 0x0B, 0x0C, 0x0D, 0x20, 0xA0, 0x1680, 0x2028, 0x2029, 0x202F,
               0x205F, 0x3000, 0xFEFF] \<or>
      (0x2000 \<le> u \<and> u \<le> 0x200A))"

definition digit_of :: "nat \<Rightarrow> nat option" where
  "digit_of u =
     (if of_char CHR ''0'' \<le> u \<and> u \<le> of_char CHR ''9'' then Some (u - of_char CHR ''0'')
      else if of_char CHR ''a'' \<le> u \<and> u \<le> of_char CHR ''z'' then Some (u - of_char CHR ''a'' + 10)
      else if of_char CHR ''A'' \<le> u \<and> u \<le> of_char CHR ''Z'' then Some (u - of_char CHR ''A'' + 10)
      else None)"

definition is_digit :: "nat \<Rightarrow> nat \<Rightarrow> bool" where
  "is_digit radix u = (case digit_of u of None \<Rightarrow> False | Some v \<Rightarrow> v < radix)"

definition digits_value :: "nat \<Rightarrow> js_string \<Rightarrow> nat" where
  "digits_value radix ds =
     foldl (\<lambda>acc u. acc * radix + (case digit_of u of None \<Rightarrow> 0 | Some v \<Rightarrow> v)) 0 ds"

definition parseInt :: "js_string \<Rightarrow> jsnum" where
  "parseInt str =
     (let s1 = dropWhile is_space str;
          negative = (s1 \<noteq> [] \<and> hd s1 = of_char CHR ''-'');
          s2 = (if s1 \<noteq> [] \<and> (hd s1 = of_char CHR ''-'' \<or> hd s1 = of_char CHR ''+'')
                then tl s1 else s1);
          hex = (take 2 s2 = js ''0x'' \<or> take 2 s2 = js ''0X'');
          radix = (if hex then 16 else 10);
          s3 = (if hex then drop 2 s2 else s2);
          ds = takeWhile (is_digit radix) s3
      in if ds = [] then NaN
         else to_double (of_int ((if negative then - 1 else 1) * int (digits_value radix ds))))"

text \<open>
  The string of a number.  For an integer of magnitude up to \<open>2 ^ 53\<close> it is the decimal
  numeral, with a minus sign for a negative one.  Beyond that range, and for a number that
  is not an integer, the language prints the shortest digits that read back as the same
  double; that string is not part of this model, and \<open>js_toString\<close> is \<open>None\<close> there.
\<close>

function dec_nat :: "nat \<Rightarrow> js_string" where
  "dec_nat n =
     (if n < 10 then [of_char CHR ''0'' + n]
      else dec_nat (n div 10) @ [of_char CHR ''0'' + n mod 10])"
  by pat_completeness auto
termination
  by (relation "measure id") auto

declare dec_nat.simps [simp del]

definition number_toString :: "int \<Rightarrow> js_string" where
  "number_toString i =
     (if i < 0 then of_char CHR ''-'' # dec_nat (nat (- i)) else dec_nat (nat i))"

definition js_toString :: "jsnum \<Rightarrow> js_string option" where
  "js_toString x =
     (case x of
        NaN \<Rightarrow> Some (js ''NaN'')
      | PosInf \<Rightarrow> Some (js ''Infinity'')
      | NegInf \<Rightarrow> Some (js ''-Infinity'')
      | Fin r \<Rightarrow>
          if r = of_int \<lfloor>r\<rfloor> \<and> \<bar>r\<bar> \<le> 2 ^ 53 then Some (number_toString \<lfloor>r\<rfloor>) else None)"

text \<open>
  A \<^verbatim>\<open>.stat-number[data-count]\<close> element: its \<^verbatim>\<open>data-count\<close> attribute, which the
  selector guarantees, and its text.
\<close>

record counter =
  data_count :: js_string
  textContent :: js_string

definition counter_suffix :: "counter \<Rightarrow> js_string" where
  "counter_suffix c = (if data_count c = js ''10'' then js '''' else js ''K+'')"

text \<open>
  \<^verbatim>\<open>updateCounter\<close>: \<open>current\<close> is the closure's variable.  Each call is one animation
  frame; the call either writes an intermediate text and requests the next frame, or writes
  the final text and stops.  The result is \<open>Final\<close> with the counter after the last frame,
  \<open>Unrendered\<close> when a frame had to write the string of a number that \<open>js_toString\<close>
  does not give, and \<open>None\<close> if the frames never end.
\<close>

datatype animation = Final counter | Unrendered

partial_function (option) updateCounter ::
  "jsnum \<Rightarrow> jsnum \<Rightarrow> jsnum \<Rightarrow> counter \<Rightarrow> animation option" where
  "updateCounter target step current c =
     (if js_lt (js_add current step) target
      then (case js_toString (js_floor (js_add current step)) of
              None \<Rightarrow> Some Unrendered
            | Some str \<Rightarrow>
                updateCounter target step (js_add current step)
                  (c\<lparr>textContent := str @ counter_suffix c\<rparr>))
      else (case js_toString target of
              None \<Rightarrow> Some Unrendered
            | Some str \<Rightarrow> Some (Final (c\<lparr>textContent := str @ counter_suffix c\<rparr>))))"

definition animateCounter :: "counter \<Rightarrow> animation option" where
  "animateCounter c =
     (let target = parseInt (data_count c);
          duration = Fin 2000;
          step = js_div target (js_div duration (Fin 16))
      in updateCounter target step (Fin 0) c)"

section \<open>Properties of the carousel\<close>

lemma filter_update_single:
  "i < length xs \<Longrightarrow> \<forall>x\<in>set xs. \<not> P x \<Longrightarrow> P y \<Longrightarrow> length (filter P (xs[i := y])) = 1"
proof (induction xs arbitrary: i)
  case Nil
  then show ?case by simp
next
  case (Cons x xs)
  then show ?case by (cases i) auto
qed

lemma count_active_single:
  "i < length els \<Longrightarrow>
   count_active ((map (\<lambda>el. classList_remove el ''active'') els)
                   [i := classList_add (map (\<lambda>el. classList_remove el ''active'') els ! i) ''active'']) = 1"
  unfolding count_active_def
  by (rule filter_update_single)
     (auto simp: classList_contains_def classList_remove_def classList_add_def)

lemma goToSlide_ok:
  assumes "i < length (cards s)" "length (dots s) = length (cards s)"
  shows "\<exists>s'. goToSlide s (Slide i) = (None, s') \<and> currentSlide s' = Slide i \<and>
           length (cards s') = length (cards s) \<and> length (dots s') = length (cards s) \<and>
           count_active (cards s') = 1 \<and> count_active (dots s') = 1"
  using assms count_active_single[of i "cards s"] count_active_single[of i "dots s"]
  by (simp add: goToSlide_def Let_def)

lemma interval_callback_ok:
  assumes "currentSlide s = Slide c" "0 < length (cards s)" "length (dots s) = length (cards s)"
  shows "\<exists>s'. interval_callback s = (None, s') \<and>
           currentSlide s' = Slide ((c + 1) mod length (cards s)) \<and>
           length (cards s') = length (cards s) \<and> length (dots s') = length (cards s) \<and>
           count_active (cards s') = 1 \<and> count_active (dots s') = 1"
proof -
  let ?n = "length (cards s)"
  let ?s1 = "s\<lparr>currentSlide := Slide ((c + 1) mod ?n)\<rparr>"
  have lt: "(c + 1) mod ?n < length (cards ?s1)" using assms(2) by simp
  have eq: "length (dots ?s1) = length (cards ?s1)" using assms(3) by simp
  from goToSlide_ok[OF lt eq] assms show ?thesis
    by (simp add: interval_callback_def Let_def)
qed

lemma advance_times_ok:
  assumes "currentSlide s = Slide c" "0 < length (cards s)" "length (dots s) = length (cards s)"
  shows "\<exists>s'. advance_times (Suc k) s = ([], s') \<and>
           currentSlide s' = Slide ((c + Suc k) mod length (cards s)) \<and>
           length (cards s') = length (cards s) \<and> length (dots s') = length (cards s) \<and>
           count_active (cards s') = 1 \<and> count_active (dots s') = 1"
  using assms
proof (induction k arbitrary: s c)
  case 0
  from interval_callback_ok[OF 0] show ?case by auto
next
  case (Suc k)
  from interval_callback_ok[OF Suc.prems] obtain s1 where
    s1: "interval_callback s = (None, s1)"
      "currentSlide s1 = Slide ((c + 1) mod length (cards s))"
      "length (cards s1) = length (cards s)" "length (dots s1) = length (cards s)"
    by blast
  have pre: "0 < length (cards s1)" "length (dots s1) = length (cards s1)"
    using s1 Suc.prems by simp_all
  from Suc.IH[OF s1(2) pre] obtain s2 where
    s2: "advance_times (Suc k) s1 = ([], s2)"
      "currentSlide s2 = Slide (((c + 1) mod length (cards s) + Suc k) mod length (cards s1))"
      "length (cards s2) = length (cards s1)" "length (dots s2) = length (cards s1)"
      "count_active (cards s2) = 1" "count_active (dots s2) = 1"
    by blast
  have "((c + 1) mod length (cards s) + Suc k) mod length (cards s) =
        (c + Suc (Suc k)) mod length (cards s)"
    by (metis add.assoc mod_add_left_eq plus_1_eq_Suc)
  with s1 s2 show ?case
    by (simp del: advance_times.simps(2) add: advance_times.simps(2)[of "Suc k"])
qed

lemma TestimonialsSlider_three:
  "TestimonialsSlider [[''testimonial-card'', ''active''], [''testimonial-card''], [''testimonial-card'']] =
   \<lparr>cards = [[''testimonial-card'', ''active''], [''testimonial-card''], [''testimonial-card'']],
    dots = [[''dot'', ''active''], [''dot''], [''dot'']],
    currentSlide = Slide 0, autoPlay = True, intervalTime = 5000,
    interval = Some 1, timers = [(1, 5000)], next_handle = 2\<rparr>"
  by (simp add: TestimonialsSlider_def init_slider_def createDots_def startAutoPlay_def
      clearInterval_def classList_add_def upt_rec Let_def)

text \<open>
  C5.  Over \<open>N \<ge> 1\<close> cards (with as many dots, as \<^verbatim>\<open>createDots\<close> builds them) and from
  active index 0, firing the timed advance \<open>N\<close> times raises nothing and brings the active
  index back to 0; and after any number \<open>k \<ge> 1\<close> of advances exactly one card and exactly
  one dot carry the class \<^verbatim>\<open>active\<close>.
\<close>

theorem carousel_cycle:
  assumes "1 \<le> length (cards s)" "length (dots s) = length (cards s)" "currentSlide s = Slide 0"
  shows "fst (advance_times (length (cards s)) s) = [] \<and>
         currentSlide (snd (advance_times (length (cards s)) s)) = Slide 0 \<and>
         (\<forall>k. 1 \<le> k \<longrightarrow>
            fst (advance_times k s) = [] \<and>
            count_active (cards (snd (advance_times k s))) = 1 \<and>
            count_active (dots (snd (advance_times k s))) = 1)"
proof -
  have pos: "0 < length (cards s)" using assms(1) by linarith
  have step: "\<exists>s'. advance_times (Suc k) s = ([], s') \<and>
           currentSlide s' = Slide ((0 + Suc k) mod length (cards s)) \<and>
           length (cards s') = length (cards s) \<and> length (dots s') = length (cards s) \<and>
           count_active (cards s') = 1 \<and> count_active (dots s') = 1" for k
    by (rule advance_times_ok[OF assms(3) pos assms(2)])
  obtain m where m: "length (cards s) = Suc m" using pos by (cases "length (cards s)") auto
  from step[of m] m have a: "fst (advance_times (length (cards s)) s) = [] \<and>
         currentSlide (snd (advance_times (length (cards s)) s)) = Slide 0"
    by (auto simp del: advance_times.simps)
  have b: "fst (advance_times k s) = [] \<and>
            count_active (cards (snd (advance_times k s))) = 1 \<and>
            count_active (dots (snd (advance_times k s))) = 1" if "1 \<le> k" for k
  proof -
    from that obtain j where "k = Suc j" by (auto simp: Suc_le_eq gr0_conv_Suc)
    with step[of j] show ?thesis by (auto simp del: advance_times.simps)
  qed
  from a b show ?thesis by blast
qed

theorem carousel_cycle_witness:
  "1 \<le> length (cards three_cards) \<and> length (dots three_cards) = length (cards three_cards) \<and>
   currentSlide three_cards = Slide 0 \<and>
   fst (advance_times 3 three_cards) = [] \<and>
   currentSlide (snd (advance_times 3 three_cards)) = Slide 0 \<and>
   count_active (cards (snd (advance_times 2 three_cards))) = 1 \<and>
   count_active (dots (snd (advance_times 2 three_cards))) = 1"
proof -
  have h: "1 \<le> length (cards three_cards)" "length (dots three_cards) = length (cards three_cards)"
      "currentSlide three_cards = Slide 0"
    by (simp_all add: TestimonialsSlider_three)
  have l: "length (cards three_cards) = 3" by (simp add: TestimonialsSlider_three)
  from carousel_cycle[OF h] l h show ?thesis by simp
qed

text \<open>
  C3, as stated, fails: over zero cards the timed advance is not a no-op that leaves the
  carousel unchanged and raises nothing.
\<close>

theorem zero_cards_advance_counterexample:
  "interval_callback (TestimonialsSlider []) \<noteq> (None, TestimonialsSlider [])"
  by (simp add: TestimonialsSlider_def init_slider_def createDots_def startAutoPlay_def
      clearInterval_def interval_callback_def goToSlide_def Let_def)

text \<open>
  C3, amended.  Over zero cards the carousel has no card and no dot, and firing the timed
  advance stores \<^verbatim>\<open>NaN\<close> (the remainder by zero) in \<^verbatim>\<open>currentSlide\<close>, which was 0, and
  then raises a \<^verbatim>\<open>TypeError\<close> on \<^verbatim>\<open>this.cards[NaN].classList\<close>; nothing else changes.
\<close>

theorem zero_cards_advance:
  "interval_callback (TestimonialsSlider []) =
     (Some TypeError, (TestimonialsSlider [])\<lparr>currentSlide := SlideNaN\<rparr>) \<and>
   cards (TestimonialsSlider []) = [] \<and> dots (TestimonialsSlider []) = [] \<and>
   currentSlide (TestimonialsSlider []) = Slide 0"
  by (simp add: TestimonialsSlider_def init_slider_def createDots_def startAutoPlay_def
      clearInterval_def interval_callback_def goToSlide_def Let_def)

lemma mouseleave_restarts:
  "slider_handle s MouseLeave =
     (None, s\<lparr>autoPlay := True,
              timers := clearInterval (interval s) (timers s) @ [(next_handle s, intervalTime s)],
              interval := Some (next_handle s), next_handle := Suc (next_handle s)\<rparr>)"
  by (simp add: startAutoPlay_def Let_def)

text \<open>
  C1.  The pointer enters the slider of a three-card carousel and then, with no
  pointer-leave and no dot click in between, the interval set at construction (handle 1)
  fires: the hover only cleared \<^verbatim>\<open>autoPlay\<close>, the interval is still live and its callback
  does not read the flag, so the active index moves from 0 to 1 and the active marks move
  with it.  A pointer-leave after that clears interval 1 and sets a new 5000 ms interval.
\<close>

theorem hover_does_not_pause:
  "slider_run three_cards [MouseEnter, IntervalFire 1] =
     ([], three_cards\<lparr>cards := [[''testimonial-card''], [''testimonial-card'', ''active''],
                               [''testimonial-card'']],
                      dots := [[''dot''], [''dot'', ''active''], [''dot'']],
                      currentSlide := Slide 1, autoPlay := False\<rparr>) \<and>
   currentSlide three_cards = Slide 0 \<and>
   timers (snd (slider_run three_cards [MouseEnter, IntervalFire 1, MouseLeave])) = [(2, 5000)]"
  by (simp add: TestimonialsSlider_three interval_callback_def goToSlide_def Let_def
      classList_add_def classList_remove_def startAutoPlay_def clearInterval_def)

section \<open>Properties of the destination filter\<close>

lemma filter_click_buttons:
  assumes "i < length (filterBtns df)"
  shows "active_buttons (filter_click df i) = 1"
    and "length (filterBtns (filter_click df i)) = length (filterBtns df)"
    and "map btn_filter (filterBtns (filter_click df i)) = map btn_filter (filterBtns df)"
proof -
  let ?bs = "map (\<lambda>b. b\<lparr>btn_classList := classList_remove (btn_classList b) ''active''\<rparr>)
                 (filterBtns df)"
  let ?P = "\<lambda>b. classList_contains (btn_classList b) ''active''"
  have none: "\<forall>b\<in>set ?bs. \<not> ?P b"
    by (auto simp: classList_contains_def classList_remove_def)
  have new: "?P ((?bs ! i)\<lparr>btn_classList := classList_add (btn_classList (?bs ! i)) ''active''\<rparr>)"
    by (simp add: classList_contains_def classList_add_def)
  have len: "i < length ?bs" using assms by simp
  from filter_update_single[of i ?bs ?P, OF len none new] assms
  show "active_buttons (filter_click df i) = 1"
    by (simp add: active_buttons_def filter_click_def Let_def)
  show "length (filterBtns (filter_click df i)) = length (filterBtns df)"
    using assms by (simp add: filter_click_def Let_def)
  show "map btn_filter (filterBtns (filter_click df i)) = map btn_filter (filterBtns df)"
    using assms by (simp add: filter_click_def Let_def map_update list_eq_iff_nth_eq nth_list_update)
qed

lemma filter_click_cards:
  assumes "i < length (filterBtns df)"
  shows "destination_cards (filter_click df i) =
           filter_cards (btn_filter (filterBtns df ! i)) (destination_cards df)"
  using assms by (simp add: filter_click_def Let_def)

lemma filter_cards_visible:
  assumes "dcard \<in> set (filter_cards category cs)"
  shows "card_visible dcard \<longleftrightarrow> category = Some ''all'' \<or> card_category dcard = category"
  using assms
  by (auto simp: filter_cards_def card_visible_def classList_contains_def
      classList_remove_def classList_add_def split: if_splits)

lemma filter_clicks_buttons:
  assumes "\<forall>i\<in>set clicks. i < length (filterBtns df)"
  shows "length (filterBtns (filter_clicks df clicks)) = length (filterBtns df) \<and>
         map btn_filter (filterBtns (filter_clicks df clicks)) = map btn_filter (filterBtns df)"
  using assms
proof (induction clicks arbitrary: df)
  case Nil
  then show ?case by (simp add: filter_clicks_def)
next
  case (Cons i clicks)
  have i: "i < length (filterBtns df)" using Cons.prems by simp
  have "\<forall>j\<in>set clicks. j < length (filterBtns (filter_click df i))"
    using Cons.prems filter_click_buttons(2)[OF i] by simp
  from Cons.IH[OF this] filter_click_buttons(2,3)[OF i] show ?case
    by (simp add: filter_clicks_def)
qed

text \<open>
  C4.  After any sequence of one or more clicks on filter buttons, exactly one filter
  button carries the class \<^verbatim>\<open>active\<close>, and a destination card is visible (does not
  carry \<^verbatim>\<open>hidden\<close>) exactly when the \<^verbatim>\<open>data-filter\<close> value of the button clicked last is
  \<^verbatim>\<open>all\<close> or equals the card's \<^verbatim>\<open>data-category\<close>.  Every prefix of a click sequence is a
  click sequence, so this holds after each click.
\<close>

theorem filter_clicks_invariant:
  assumes "clicks \<noteq> []" "\<forall>i\<in>set clicks. i < length (filterBtns df)"
  shows "active_buttons (filter_clicks df clicks) = 1 \<and>
         (\<forall>dcard\<in>set (destination_cards (filter_clicks df clicks)).
            card_visible dcard \<longleftrightarrow>
              btn_filter (filterBtns df ! last clicks) = Some ''all'' \<or>
              card_category dcard = btn_filter (filterBtns df ! last clicks))"
proof -
  obtain pre i where split: "clicks = pre @ [i]"
    using assms(1) by (metis append_butlast_last_id)
  let ?df1 = "filter_clicks df pre"
  have pre: "\<forall>j\<in>set pre. j < length (filterBtns df)" using assms(2) split by simp
  have i0: "i < length (filterBtns df)" using assms(2) split by simp
  from filter_clicks_buttons[OF pre] have
    len: "length (filterBtns ?df1) = length (filterBtns df)" and
    flt: "map btn_filter (filterBtns ?df1) = map btn_filter (filterBtns df)"
    by simp_all
  have i1: "i < length (filterBtns ?df1)" using i0 len by simp
  have same: "btn_filter (filterBtns ?df1 ! i) = btn_filter (filterBtns df ! i)"
    using flt i0 i1 by (metis nth_map)
  have run: "filter_clicks df clicks = filter_click ?df1 i"
    by (simp add: filter_clicks_def split)
  have a: "active_buttons (filter_clicks df clicks) = 1"
    using filter_click_buttons(1)[OF i1] run by simp
  have b: "card_visible dcard \<longleftrightarrow>
              btn_filter (filterBtns df ! last clicks) = Some ''all'' \<or>
              card_category dcard = btn_filter (filterBtns df ! last clicks)"
    if "dcard \<in> set (destination_cards (filter_clicks df clicks))" for dcard
  proof -
    from that have "dcard \<in> set (filter_cards (btn_filter (filterBtns df ! i)) (destination_cards ?df1))"
      using run filter_click_cards[OF i1] same by simp
    from filter_cards_visible[OF this] show ?thesis by (simp add: split)
  qed
  from a b show ?thesis by blast
qed

theorem filter_clicks_invariant_witness:
  "[1, 2, 1] \<noteq> ([] :: nat list) \<and>
   1 < length (filterBtns destinations_page) \<and> 2 < length (filterBtns destinations_page) \<and>
   btn_filter (filterBtns destinations_page ! last [1, 2, 1]) = Some ''beach'' \<and>
   active_buttons (filter_clicks destinations_page [1, 2, 1]) = 1 \<and>
   map card_category (destination_cards (filter_clicks destinations_page [1, 2, 1])) =
     [Some ''beach'', Some ''mountain'', None] \<and>
   map card_visible (destination_cards (filter_clicks destinations_page [1, 2, 1])) =
     [True, False, False]"
proof -
  have h1: "[1, 2, 1] \<noteq> ([] :: nat list)" by simp
  have h2: "\<forall>i\<in>set [1, 2, 1]. i < length (filterBtns destinations_page)" by simp
  have c: "map card_category (destination_cards (filter_clicks destinations_page [1, 2, 1])) =
     [Some ''beach'', Some ''mountain'', None]"
    by (simp add: filter_clicks_def filter_click_def filter_cards_def Let_def)
  then obtain c1 c2 c3 where
    cs: "destination_cards (filter_clicks destinations_page [1, 2, 1]) = [c1, c2, c3]"
      "card_category c1 = Some ''beach''" "card_category c2 = Some ''mountain''"
      "card_category c3 = None"
    by (auto simp: map_eq_Cons_conv)
  from filter_clicks_invariant[OF h1 h2] cs show ?thesis by simp
qed

section \<open>Properties of the like button\<close>

lemma like_click_from_unliked:
  assumes "is_unliked btn"
  shows "\<exists>btn1. like_click btn = (None, btn1) \<and> like_state btn1 = liked_state \<and>
           set (like_classList btn1) = insert ''liked'' (set (like_classList btn))"
  using assms
  by (auto simp: like_state_def is_unliked_def liked_state_def like_click_def Let_def
      classList_toggle_def classList_contains_def classList_add_def classList_remove_def
      split: option.splits)

lemma like_click_from_liked:
  assumes "like_state btn = liked_state"
  shows "\<exists>btn1. like_click btn = (None, btn1) \<and> like_state btn1 = unliked_state \<and>
           is_unliked btn1 \<and>
           set (like_classList btn1) = set (like_classList btn) - {''liked''}"
  using assms
  by (auto simp: like_state_def unliked_state_def is_unliked_def liked_state_def like_click_def
      Let_def classList_toggle_def classList_contains_def classList_add_def classList_remove_def
      split: option.splits)

text \<open>
  C10.  From the unliked state (no \<^verbatim>\<open>liked\<close> class, icon carrying \<^verbatim>\<open>far\<close>, empty inline
  colour) one click raises nothing and yields the liked state (\<^verbatim>\<open>liked\<close> present, icon
  carrying \<^verbatim>\<open>fas\<close> and no longer \<^verbatim>\<open>far\<close>, colour \<^verbatim>\<open>#e94560\<close>), and a second click
  raises nothing and yields the unliked state again (no \<^verbatim>\<open>liked\<close>, icon carrying \<^verbatim>\<open>far\<close>
  and not \<^verbatim>\<open>fas\<close>, empty colour), with the button's set of classes as it was.
\<close>

theorem like_toggle_involution:
  assumes "is_unliked btn"
  shows "\<exists>btn1 btn2.
           like_click btn = (None, btn1) \<and> like_state btn1 = liked_state \<and>
           like_click btn1 = (None, btn2) \<and> like_state btn2 = unliked_state \<and>
           is_unliked btn2 \<and> set (like_classList btn2) = set (like_classList btn)"
proof -
  from like_click_from_unliked[OF assms] obtain btn1 where
    b1: "like_click btn = (None, btn1)" "like_state btn1 = liked_state"
      "set (like_classList btn1) = insert ''liked'' (set (like_classList btn))"
    by blast
  from like_click_from_liked[OF b1(2)] obtain btn2 where
    b2: "like_click btn1 = (None, btn2)" "like_state btn2 = unliked_state" "is_unliked btn2"
      "set (like_classList btn2) = set (like_classList btn1) - {''liked''}"
    by blast
  have "''liked'' \<notin> set (like_classList btn)"
    using assms
    by (auto simp: is_unliked_def classList_contains_def split: option.splits)
  with b1 b2 show ?thesis by auto
qed

theorem like_toggle_involution_witness:
  "is_unliked heart_button \<and>
   like_click heart_button =
     (None, \<lparr>like_classList = [''card-btn'', ''liked''],
             like_icon = Some \<lparr>icon_classList = [''fa-heart'', ''fas''],
                               icon_color = ''#e94560''\<rparr>\<rparr>) \<and>
   (\<exists>btn1 btn2.
      like_click heart_button = (None, btn1) \<and> like_state btn1 = liked_state \<and>
      like_click btn1 = (None, btn2) \<and> like_state btn2 = unliked_state \<and>
      is_unliked btn2 \<and> set (like_classList btn2) = set (like_classList heart_button))"
proof -
  have h: "is_unliked heart_button"
    by (simp add: is_unliked_def classList_contains_def)
  have c: "like_click heart_button =
     (None, \<lparr>like_classList = [''card-btn'', ''liked''],
             like_icon = Some \<lparr>icon_classList = [''fa-heart'', ''fas''],
                               icon_color = ''#e94560''\<rparr>\<rparr>)"
    by (simp add: like_click_def Let_def classList_toggle_def classList_contains_def
        classList_add_def classList_remove_def)
  from like_toggle_involution[OF h] h c show ?thesis by blast
qed

section \<open>Properties of the search overlay and of the shared page state\<close>

text \<open>
  C8.  From the open state of the search overlay: an Escape key press closes it, a click
  whose target is the overlay element itself closes it, and a click whose target is inside
  the overlay's content leaves the page as it is, so the overlay stays open.  Closing raises
  nothing and also resets the inline overflow style of the body.
\<close>

theorem search_overlay_dismissal:
  assumes "search_is_open p"
  shows "fst (search_keydown p ''Escape'') = None \<and>
         \<not> search_is_open (snd (search_keydown p ''Escape'')) \<and>
         body_overflow (snd (search_keydown p ''Escape'')) = '''' \<and>
         fst (search_click p OnBackdrop) = None \<and>
         \<not> search_is_open (snd (search_click p OnBackdrop)) \<and>
         body_overflow (snd (search_click p OnBackdrop)) = '''' \<and>
         search_click p OnContent = (None, p) \<and>
         search_is_open (snd (search_click p OnContent))"
  using assms
  by (auto simp: search_is_open_def search_keydown_def SearchModal_close_def
      classList_contains_def classList_remove_def split: option.splits)

theorem search_overlay_dismissal_witness:
  "search_is_open (snd (SearchModal_open fresh_page)) \<and>
   snd (search_keydown (snd (SearchModal_open fresh_page)) ''Escape'') =
     fresh_page\<lparr>scheduled_focus := 1\<rparr> \<and>
   \<not> search_is_open (snd (search_keydown (snd (SearchModal_open fresh_page)) ''Escape'')) \<and>
   \<not> search_is_open (snd (search_click (snd (SearchModal_open fresh_page)) OnBackdrop)) \<and>
   search_is_open (snd (search_click (snd (SearchModal_open fresh_page)) OnContent))"
proof -
  have h: "search_is_open (snd (SearchModal_open fresh_page))"
    by (simp add: search_is_open_def SearchModal_open_def classList_contains_def classList_add_def)
  have e: "snd (search_keydown (snd (SearchModal_open fresh_page)) ''Escape'') =
     fresh_page\<lparr>scheduled_focus := 1\<rparr>"
    by (simp add: search_keydown_def SearchModal_open_def SearchModal_close_def
        classList_contains_def classList_add_def classList_remove_def)
  from search_overlay_dismissal[OF h] h e show ?thesis by simp
qed



section \<open>Properties of the lightbox\<close>

lemma teardown_all:
  "foldl (\<lambda>d1 ls. lightbox_teardown ls d1) d lss =
     d\<lparr>body_lightboxes := filter (\<lambda>c. c \<notin> fst ` set lss) (body_lightboxes d),
       head_styles := filter (\<lambda>c. c \<notin> snd ` set lss) (head_styles d)\<rparr>"
proof (induction lss arbitrary: d)
  case Nil
  then show ?case by simp
next
  case (Cons ls lss)
  have "foldl (\<lambda>d1 ls. lightbox_teardown ls d1) d (ls # lss) =
        foldl (\<lambda>d1 ls. lightbox_teardown ls d1) (lightbox_teardown ls d) lss"
    by simp
  also have "\<dots> = (lightbox_teardown ls d)
       \<lparr>body_lightboxes :=
          filter (\<lambda>c. c \<notin> fst ` set lss) (body_lightboxes (lightbox_teardown ls d)),
        head_styles :=
          filter (\<lambda>c. c \<notin> snd ` set lss) (head_styles (lightbox_teardown ls d))\<rparr>"
    by (rule Cons.IH)
  also have "\<dots> = d\<lparr>body_lightboxes := filter (\<lambda>c. c \<notin> fst ` set (ls # lss)) (body_lightboxes d),
       head_styles := filter (\<lambda>c. c \<notin> snd ` set (ls # lss)) (head_styles d)\<rparr>"
    by (simp add: lightbox_teardown_def node_remove_def)
  finally show ?case .
qed

lemma escape_keydown:
  "document_keydown ''Escape'' d =
     d\<lparr>body_lightboxes := filter (\<lambda>c. c \<notin> fst ` set (keydown_listeners d)) (body_lightboxes d),
       head_styles := filter (\<lambda>c. c \<notin> snd ` set (keydown_listeners d)) (head_styles d)\<rparr>"
  by (simp add: document_keydown_def teardown_all)

lemma openLightbox_result:
  assumes "openLightbox d (Some img) = (Inr (lb, st), d1)"
  shows "body_lightboxes d1 = body_lightboxes d @ [lb]"
    and "head_styles d1 = head_styles d @ [st]"
    and "(lb, st) \<in> set (keydown_listeners d1)"
  using assms by (auto simp: openLightbox_def Let_def)

text \<open>
  C9.  A lightbox is opened on a document and then dismissed by a click on its close
  button, by a click on the lightbox element itself, or by an Escape key press.  After each
  of the three, the lightbox node is not attached to the body and its style node is not
  attached to the head; and when no lightbox was attached before the opening, none is
  attached after the dismissal.
\<close>

theorem lightbox_dismissal:
  assumes "openLightbox d (Some img) = (Inr (lb, st), d1)"
    and "d2 = lightbox_click (lb, st) LightboxClose d1 \<or>
         d2 = lightbox_click (lb, st) LightboxItself d1 \<or>
         d2 = document_keydown ''Escape'' d1"
  shows "lb \<notin> set (body_lightboxes d2) \<and> st \<notin> set (head_styles d2) \<and>
         (body_lightboxes d = [] \<longrightarrow> body_lightboxes d2 = [])"
proof -
  note r = openLightbox_result[OF assms(1)]
  have click: "lb \<notin> set (body_lightboxes (lightbox_teardown (lb, st) d1)) \<and>
               st \<notin> set (head_styles (lightbox_teardown (lb, st) d1)) \<and>
               (body_lightboxes d = [] \<longrightarrow> body_lightboxes (lightbox_teardown (lb, st) d1) = [])"
    using r by (simp add: lightbox_teardown_def node_remove_def)
  have "fst (lb, st) \<in> fst ` set (keydown_listeners d1)"
       "snd (lb, st) \<in> snd ` set (keydown_listeners d1)"
    using r(3) by (blast intro: imageI)+
  then have key: "lb \<notin> set (body_lightboxes (document_keydown ''Escape'' d1)) \<and>
             st \<notin> set (head_styles (document_keydown ''Escape'' d1)) \<and>
             (body_lightboxes d = [] \<longrightarrow> body_lightboxes (document_keydown ''Escape'' d1) = [])"
    using r(1) by (auto simp: escape_keydown)
  from assms(2) click key show ?thesis by auto
qed

theorem lightbox_dismissal_witness:
  "openLightbox empty_document (Some (''a.jpg'', ''A'')) =
     (Inr (0, 1), \<lparr>head_styles = [1], body_lightboxes = [0], keydown_listeners = [(0, 1)],
                   created_nodes = 2\<rparr>) \<and>
   body_lightboxes (document_keydown ''Escape''
     \<lparr>head_styles = [1], body_lightboxes = [0], keydown_listeners = [(0, 1)], created_nodes = 2\<rparr>) = [] \<and>
   1 \<notin> set (head_styles (document_keydown ''Escape''
     \<lparr>head_styles = [1], body_lightboxes = [0], keydown_listeners = [(0, 1)], created_nodes = 2\<rparr>))"
proof -
  let ?d1 = "\<lparr>head_styles = [1], body_lightboxes = [0], keydown_listeners = [(0, 1)],
              created_nodes = 2\<rparr>"
  have h: "openLightbox empty_document (Some (''a.jpg'', ''A'')) = (Inr (0, 1), ?d1)"
    by (simp add: openLightbox_def Let_def)
  from lightbox_dismissal[OF h, of "document_keydown ''Escape'' ?d1"] h show ?thesis by simp
qed

section \<open>Properties of script numbers\<close>

lemma round_half_even_error: "\<bar>of_int (round_half_even x) - x\<bar> \<le> 1 / 2"
proof -
  have "of_int \<lfloor>x\<rfloor> \<le> x" "x < of_int \<lfloor>x\<rfloor> + 1" by linarith+
  then show ?thesis by (auto simp: round_half_even_def)
qed

lemma round_half_even_nonneg: "0 \<le> x \<Longrightarrow> 0 \<le> round_half_even x"
  by (auto simp: round_half_even_def)

lemma round_half_even_of_int [simp]: "round_half_even (of_int k) = k"
  by (simp add: round_half_even_def)

lemma ilog2_le:
  assumes "0 < x"
  shows "2 powi (ilog2 x) \<le> x"
proof (cases "1 \<le> x")
  case True
  then have n: "0 < \<lfloor>x\<rfloor>" by linarith
  from bitlen_bounds[OF n] have b: "2 ^ nat (bitlen \<lfloor>x\<rfloor> - 1) \<le> \<lfloor>x\<rfloor>" by simp
  have nn: "0 \<le> bitlen \<lfloor>x\<rfloor> - 1"
    using n bitlen_eq_zero_iff[of "\<lfloor>x\<rfloor>"] bitlen_nonneg[of "\<lfloor>x\<rfloor>"] by linarith
  have "(2::rat) powi (bitlen \<lfloor>x\<rfloor> - 1) = 2 ^ nat (bitlen \<lfloor>x\<rfloor> - 1)"
    using nn by (rule power_int_nonneg_exp)
  also have "\<dots> = of_int (2 ^ nat (bitlen \<lfloor>x\<rfloor> - 1))" by simp
  also have "\<dots> \<le> of_int \<lfloor>x\<rfloor>" using b by (simp only: of_int_le_iff)
  also have "\<dots> \<le> x" by linarith
  finally show ?thesis using True by (simp add: ilog2_def)
next
  case False
  then have x1: "x < 1" by simp
  then have inv: "1 < 1 / x" using assms by simp
  let ?k = "\<lceil>1 / x\<rceil> - 1"
  have k: "0 < ?k" using inv by linarith
  from bitlen_bounds[OF k] have "?k < 2 ^ nat (bitlen ?k)" by simp
  then have c: "\<lceil>1 / x\<rceil> \<le> 2 ^ nat (bitlen ?k)" by linarith
  have "1 / x \<le> of_int \<lceil>1 / x\<rceil>" by (rule le_of_int_ceiling)
  also have "\<dots> \<le> of_int (2 ^ nat (bitlen ?k))" using c by (simp only: of_int_le_iff)
  also have "\<dots> = 2 ^ nat (bitlen ?k)" by simp
  finally have le: "1 / x \<le> 2 ^ nat (bitlen ?k)" .
  have "(2::rat) powi (- bitlen ?k) = 1 / 2 ^ nat (bitlen ?k)"
    using bitlen_nonneg[of ?k] by (simp add: power_int_def inverse_eq_divide power_one_over)
  also have "\<dots> \<le> x"
  proof -
    have "1 \<le> x * 2 ^ nat (bitlen ?k)"
      using le assms by (simp add: field_simps)
    then show ?thesis by (simp add: field_simps)
  qed
  finally show ?thesis using False by (simp add: ilog2_def)
qed

lemma quantum_pos: "0 < quantum a"
  by (simp add: quantum_def power_int_def)

lemma quantum_half_le:
  assumes "0 < a"
  shows "quantum a / 2 \<le> a / 2 ^ 53 + 1 / 2 ^ 1075"
proof (cases "- 1022 \<le> ilog2 a")
  case True
  then have "quantum a = 2 powi (ilog2 a - 52)" by (simp add: quantum_def max_def)
  also have "\<dots> = 2 powi (ilog2 a) / 2 ^ 52"
    by (simp add: power_int_diff)
  finally have "quantum a / 2 = 2 powi (ilog2 a) / 2 ^ 53" by simp
  also have "\<dots> \<le> a / 2 ^ 53"
    using ilog2_le[OF assms] by (simp add: divide_right_mono)
  finally show ?thesis by simp
next
  case False
  then have "quantum a = 2 powi (- 1074)" by (simp add: quantum_def max_def)
  then have "quantum a / 2 = 1 / 2 ^ 1075" by (simp add: power_int_def inverse_eq_divide power_one_over)
  moreover have "0 \<le> a / 2 ^ 53" using assms by simp
  ultimately show ?thesis by linarith
qed

lemma rounded_magnitude:
  assumes "0 < a" "a \<le> 2 ^ 1000"
  shows "0 \<le> of_int (round_half_even (a / quantum a)) * quantum a"
    and "\<bar>of_int (round_half_even (a / quantum a)) * quantum a - a\<bar> \<le> a / 2 ^ 53 + 1 / 2 ^ 1075"
    and "\<not> 2 ^ 1024 \<le> of_int (round_half_even (a / quantum a)) * quantum a"
proof -
  let ?q = "quantum a"
  let ?m = "round_half_even (a / ?q)"
  let ?y = "of_int ?m * ?q"
  have q: "0 < ?q" by (rule quantum_pos)
  have "\<bar>of_int ?m - a / ?q\<bar> \<le> 1 / 2" by (rule round_half_even_error)
  then have "\<bar>of_int ?m - a / ?q\<bar> * ?q \<le> 1 / 2 * ?q"
    using q by (simp only: mult_le_cancel_right_pos)
  moreover have "\<bar>of_int ?m - a / ?q\<bar> * ?q = \<bar>?y - a\<bar>"
  proof -
    have "\<bar>of_int ?m - a / ?q\<bar> * ?q = \<bar>(of_int ?m - a / ?q) * ?q\<bar>"
      using q by (simp add: abs_mult)
    also have "(of_int ?m - a / ?q) * ?q = ?y - a" using q by (simp add: field_simps)
    finally show ?thesis .
  qed
  ultimately have e1: "\<bar>?y - a\<bar> \<le> ?q / 2" by simp
  show err: "\<bar>?y - a\<bar> \<le> a / 2 ^ 53 + 1 / 2 ^ 1075"
    using e1 quantum_half_le[OF assms(1)] by linarith
  show "0 \<le> ?y"
  proof -
    have "0 \<le> a / ?q" using q assms(1) by simp
    from round_half_even_nonneg[OF this] q show ?thesis by simp
  qed
  have "a / 2 ^ 53 \<le> 2 ^ 1000 / (2 ^ 53 :: rat)" using assms(2) by (simp add: divide_right_mono)
  then have "?y \<le> 2 ^ 1000 + 2 ^ 1000 / 2 ^ 53 + 1 / (2 ^ 1075 :: rat)"
    using err assms(2) by linarith
  also have "\<dots> < 2 ^ 1024" by simp
  finally show "\<not> 2 ^ 1024 \<le> ?y" by simp
qed

lemma to_double_finite:
  assumes "x \<noteq> 0" "\<bar>x\<bar> \<le> 2 ^ 1000"
  shows "to_double x =
           Fin (sgn x * (of_int (round_half_even (\<bar>x\<bar> / quantum \<bar>x\<bar>)) * quantum \<bar>x\<bar>))"
proof -
  have "0 < \<bar>x\<bar>" using assms(1) by simp
  from rounded_magnitude(3)[OF this assms(2)] assms(1) show ?thesis
    by (simp only: to_double_def if_False)
qed

lemma to_double_error:
  assumes "\<bar>x\<bar> \<le> 2 ^ 1000"
  shows "\<exists>y. to_double x = Fin y \<and> \<bar>y - x\<bar> \<le> \<bar>x\<bar> / 2 ^ 53 + 1 / 2 ^ 1075 \<and>
           (0 \<le> x \<longrightarrow> 0 \<le> y) \<and> (x \<le> 0 \<longrightarrow> y \<le> 0)"
proof (cases "x = 0")
  case True
  then show ?thesis by (simp add: to_double_def)
next
  case False
  then have pos: "0 < \<bar>x\<bar>" by simp
  let ?Y = "of_int (round_half_even (\<bar>x\<bar> / quantum \<bar>x\<bar>)) * quantum \<bar>x\<bar>"
  note m = rounded_magnitude[OF pos assms]
  have eq: "to_double x = Fin (sgn x * ?Y)" by (rule to_double_finite[OF False assms])
  have "sgn x * \<bar>x\<bar> = x" by (rule sgn_mult_abs)
  then have "sgn x * ?Y - x = sgn x * (?Y - \<bar>x\<bar>)"
    by (simp only: right_diff_distrib)
  then have "\<bar>sgn x * ?Y - x\<bar> = \<bar>?Y - \<bar>x\<bar>\<bar>"
    using False by (simp add: abs_mult abs_sgn_eq)
  with m(2) have err: "\<bar>sgn x * ?Y - x\<bar> \<le> \<bar>x\<bar> / 2 ^ 53 + 1 / 2 ^ 1075" by simp
  have s1: "0 \<le> x \<longrightarrow> 0 \<le> sgn x * ?Y" using m(1) False by (auto simp: sgn_if)
  have s2: "x \<le> 0 \<longrightarrow> sgn x * ?Y \<le> 0" using m(1) False by (auto simp: sgn_if)
  from eq err s1 s2 show ?thesis by blast
qed

lemma quantum_exact:
  assumes "0 < k" "k \<le> 2 ^ 53"
  shows "of_int (round_half_even (of_int k / quantum (of_int k))) * quantum (of_int k) =
         (of_int k :: rat)"
proof -
  have one: "(1::rat) \<le> of_int k" using assms(1) by simp
  have e: "ilog2 (of_int k) = bitlen k - 1"
    using one unfolding ilog2_def by simp
  have b1: "1 \<le> bitlen k"
    using assms(1) bitlen_eq_zero_iff[of k] bitlen_nonneg[of k] by linarith
  have "k < 2 ^ nat 54" using assms(2) by simp
  then have b2: "bitlen k \<le> 54" by (simp only: bitlen_le_iff_power) simp
  show ?thesis
  proof (cases "bitlen k \<le> 53")
    case True
    let ?s = "nat (53 - bitlen k)"
    have q: "quantum (of_int k) = 1 / 2 ^ ?s"
    proof -
      have "max (bitlen k - 1) (- 1022) - 52 = - int ?s" using b1 True by simp
      then have "quantum (of_int k) = 2 powi (- int ?s)"
        unfolding quantum_def e by simp
      also have "\<dots> = 1 / 2 ^ ?s"
        unfolding power_int_minus power_int_of_nat by (simp only: inverse_eq_divide)
      finally show ?thesis .
    qed
    have "(of_int k :: rat) / quantum (of_int k) = of_int (k * 2 ^ ?s)"
      unfolding q by simp
    then have "round_half_even (of_int k / quantum (of_int k)) = k * 2 ^ ?s"
      by (simp only: round_half_even_of_int)
    then show ?thesis unfolding q by simp
  next
    case False
    with b2 have b: "bitlen k = 54" by simp
    from bitlen_bounds[OF assms(1)] b have "2 ^ 53 \<le> k" by simp
    with assms(2) have k: "k = 2 ^ 53" by simp
    have q: "quantum (of_int k) = 2"
      unfolding quantum_def e b by simp
    have "(of_int k :: rat) / 2 = of_int (2 ^ 52)" unfolding k by simp
    then have "round_half_even (of_int k / 2) = 2 ^ 52" by (simp only: round_half_even_of_int)
    then show ?thesis unfolding q unfolding k by simp
  qed
qed

lemma to_double_of_int:
  assumes "\<bar>k\<bar> \<le> 2 ^ 53"
  shows "to_double (of_int k) = Fin (of_int k)"
proof -
  have small: "\<not> (2 ^ 1024 \<le> (of_int j :: rat))" if "j \<le> 2 ^ 53" for j :: int
  proof -
    have "(of_int j :: rat) \<le> of_int (2 ^ 53)" using that by (simp only: of_int_le_iff)
    also have "\<dots> < 2 ^ 1024" by simp
    finally show ?thesis by simp
  qed
  consider "k = 0" | "0 < k" | "k < 0" by linarith
  then show ?thesis
  proof cases
    case 1
    then show ?thesis by (simp add: to_double_def)
  next
    case 2
    then have le: "k \<le> 2 ^ 53" using assms by simp
    have ax: "\<bar>of_int k :: rat\<bar> = of_int k" using 2 by simp
    have nz: "(of_int k :: rat) \<noteq> 0" "(0::rat) < of_int k" using 2 by simp_all
    show ?thesis
      unfolding to_double_def ax quantum_exact[OF 2 le]
      using nz small[OF le] by simp
  next
    case 3
    then have pos: "0 < - k" and le: "- k \<le> 2 ^ 53" using assms by simp_all
    have ax: "\<bar>of_int k :: rat\<bar> = of_int (- k)" using 3 by simp
    have nz: "(of_int k :: rat) \<noteq> 0" "(of_int k :: rat) < 0" using 3 by simp_all
    have "to_double (of_int k) = Fin (sgn (of_int k) * of_int (- k))"
      unfolding to_double_def ax quantum_exact[OF pos le]
      using nz(1) small[OF le] by (simp only: if_False)
    also have "sgn (of_int k :: rat) * of_int (- k) = of_int k" using nz(2) by simp
    finally show ?thesis .
  qed
qed

section \<open>Properties of the scroll progress bar\<close>

lemma docHeight_exact:
  assumes "\<bar>h - v\<bar> \<le> 2 ^ 53"
  shows "js_sub (Fin (of_int h)) (Fin (of_int v)) = Fin (of_int (h - v))"
proof -
  have "js_sub (Fin (of_int h)) (Fin (of_int v)) = to_double (of_int (h - v))"
    by (simp add: js_sub_def)
  with to_double_of_int[OF assms] show ?thesis by simp
qed

lemma scrollPercent_bound:
  assumes "0 \<le> s" "0 < d" "d \<le> 2 ^ 53" "s \<le> of_int d"
  shows "\<exists>p. js_mul (js_div (Fin s) (Fin (of_int d))) (Fin 100) = Fin p \<and> 0 \<le> p \<and>
           \<bar>p - 100 * s / of_int d\<bar> \<le> 100 * s / of_int d / 2 ^ 51 + 1 / 2 ^ 1068"
proof -
  define E where "E = s / of_int d"
  define t :: rat where "t = 1 / 2 ^ 1075"
  define A where "A = 100 * E / 2 ^ 53"
  have dpos: "(0::rat) < of_int d" using assms(2) by simp
  have E: "0 \<le> E" "E \<le> 1" using assms(1,4) dpos by (simp_all add: E_def)
  have t0: "0 \<le> t" "t \<le> 1" by (simp_all add: t_def)
  have A0: "0 \<le> A" using E(1) by (simp add: A_def)
  have A1: "A \<le> 1"
  proof -
    have "100 * E \<le> 100" using E(2) by simp
    then have "100 * E / 2 ^ 53 \<le> 100 / 2 ^ 53" by (rule divide_right_mono) simp
    also have "\<dots> \<le> (1::rat)" by simp
    finally show ?thesis by (simp add: A_def)
  qed
  have "\<bar>E\<bar> \<le> 2 ^ 1000"
  proof -
    have "\<bar>E\<bar> \<le> 1" using E by simp
    also have "(1::rat) \<le> 2 ^ 1000" by simp
    finally show ?thesis .
  qed
  from to_double_error[OF this] E(1) obtain q where
    q: "to_double E = Fin q" "\<bar>q - E\<bar> \<le> E / 2 ^ 53 + 1 / 2 ^ 1075" "0 \<le> q"
    by auto
  have AE: "100 * (E / 2 ^ 53) = A" by (simp add: A_def)
  from q(2) have qb: "q \<le> E + (E / 2 ^ 53 + t)" "E - (E / 2 ^ 53 + t) \<le> q"
    unfolding t_def by linarith+
  have q100: "100 * q \<le> 100 * E + A + 100 * t" "100 * E - A - 100 * t \<le> 100 * q"
    using qb AE by linarith+
  have q0: "0 \<le> 100 * q" using q(3) by simp
  have qle: "100 * q \<le> 300" using q100(1) E(2) A1 t0(2) by linarith
  have "\<bar>q * 100\<bar> \<le> 2 ^ 1000"
  proof -
    have "\<bar>q * 100\<bar> \<le> 300" using qle q0 by simp
    also have "(300::rat) \<le> 2 ^ 1000" by simp
    finally show ?thesis .
  qed
  from to_double_error[OF this] q(3) obtain p where
    p: "to_double (q * 100) = Fin p" "\<bar>p - q * 100\<bar> \<le> \<bar>q * 100\<bar> / 2 ^ 53 + 1 / 2 ^ 1075"
      "0 \<le> p"
    by auto
  have absq: "\<bar>q * 100\<bar> = 100 * q" using q(3) by simp
  have f2: "100 * q / 2 ^ 53 \<le> (100 * E + A + 100 * t) / 2 ^ 53"
    using q100(1) by (rule divide_right_mono) simp
  have f3: "(100 * E + A + 100 * t) / 2 ^ 53 \<le> A + A + t"
  proof -
    have "A / 2 ^ 53 \<le> A" using A0 by (simp add: field_simps)
    moreover have "100 * t / 2 ^ 53 \<le> t" using t0 by (simp add: field_simps)
    moreover have "(100 * E + A + 100 * t) / 2 ^ 53 = A + A / 2 ^ 53 + 100 * t / 2 ^ 53"
      by (simp add: A_def add_divide_distrib)
    ultimately show ?thesis by linarith
  qed
  have "\<bar>p - 100 * q\<bar> \<le> 100 * q / 2 ^ 53 + t"
    using p(2) unfolding absq t_def by (simp add: mult.commute)
  then have pb: "p \<le> 100 * q + (100 * q / 2 ^ 53 + t)" "100 * q - (100 * q / 2 ^ 53 + t) \<le> p"
    by linarith+
  have up: "p - 100 * E \<le> 4 * A + 128 * t" using pb(1) q100(1) f2 f3 A0 t0(1) by linarith
  have lo: "100 * E - p \<le> 4 * A + 128 * t" using pb(2) q100(2) f2 f3 A0 t0(1) by linarith
  have "\<bar>p - 100 * E\<bar> \<le> 4 * A + 128 * t" using up lo by (simp add: abs_le_iff)
  also have "4 * A + 128 * t = 100 * E / 2 ^ 51 + 1 / 2 ^ 1068"
    by (simp add: A_def t_def)
  finally have bound: "\<bar>p - 100 * E\<bar> \<le> 100 * E / 2 ^ 51 + 1 / 2 ^ 1068" .
  have "js_mul (js_div (Fin s) (Fin (of_int d))) (Fin 100) = Fin p"
    using dpos q(1) p(1) by (simp add: E_def)
  with p(3) bound show ?thesis unfolding E_def by auto
qed

text \<open>
  C7, amended.  With the document higher than the viewport (the difference within the
  range of exact integers, as for the 32-bit heights of the platform) and a scroll position
  between 0 and that difference, the update sets the width of the bar to the percentage \<open>p\<close>
  that double arithmetic gives for \<open>(scrollTop / docHeight) * 100\<close>, rounded after the
  division and after the multiplication; \<open>p\<close> is within the relative error \<open>2 ^ (- 51)\<close>
  (plus \<open>2 ^ (- 1068)\<close>, for a quotient in the subnormal range) of
  \<open>100 * scrollTop / (documentHeight - viewportHeight)\<close>, and so does a scroll event that the
  throttle lets through.  With the document as high as the viewport the division is by
  zero and nothing guards it: the computed percentage is \<^verbatim>\<open>NaN\<close> at scroll position 0 and
  \<^verbatim>\<open>Infinity\<close> at a positive one, and the bar keeps the width it had.
\<close>

theorem scroll_progress_percent:
  assumes "0 \<le> scrollTop" "documentHeight - viewportHeight \<le> 2 ^ 53"
  shows "(viewportHeight < documentHeight \<and>
          scrollTop \<le> of_int (documentHeight - viewportHeight) \<longrightarrow>
            (\<exists>p. scrollPercent scrollTop documentHeight viewportHeight = Fin p \<and>
                 \<bar>p - 100 * scrollTop / of_int (documentHeight - viewportHeight)\<bar> \<le>
                   100 * scrollTop / of_int (documentHeight - viewportHeight) / 2 ^ 51 +
                   1 / 2 ^ 1068 \<and>
                 bar_width (progress_update scrollTop documentHeight viewportHeight sp) =
                   Percent p \<and>
                 (\<not> inThrottle sp \<longrightarrow>
                    bar_width (on_scroll scrollTop documentHeight viewportHeight sp) =
                      Percent p))) \<and>
         (documentHeight = viewportHeight \<longrightarrow>
            scrollPercent scrollTop documentHeight viewportHeight =
              (if scrollTop = 0 then NaN else PosInf) \<and>
            bar_width (progress_update scrollTop documentHeight viewportHeight sp) = bar_width sp)"
proof (intro conjI impI)
  assume h: "viewportHeight < documentHeight \<and>
             scrollTop \<le> of_int (documentHeight - viewportHeight)"
  let ?d = "documentHeight - viewportHeight"
  have d: "0 < ?d" "\<bar>?d\<bar> \<le> 2 ^ 53" using h assms(2) by simp_all
  from scrollPercent_bound[OF assms(1) d(1) assms(2)] h obtain p where
    p: "js_mul (js_div (Fin scrollTop) (Fin (of_int ?d))) (Fin 100) = Fin p" "0 \<le> p"
      "\<bar>p - 100 * scrollTop / of_int ?d\<bar> \<le> 100 * scrollTop / of_int ?d / 2 ^ 51 + 1 / 2 ^ 1068"
    by blast
  have sp: "scrollPercent scrollTop documentHeight viewportHeight = Fin p"
    unfolding scrollPercent_def Let_def docHeight_exact[OF d(2)] by (rule p(1))
  with p(2,3) show "\<exists>p. scrollPercent scrollTop documentHeight viewportHeight = Fin p \<and>
      \<bar>p - 100 * scrollTop / of_int ?d\<bar> \<le> 100 * scrollTop / of_int ?d / 2 ^ 51 + 1 / 2 ^ 1068 \<and>
      bar_width (progress_update scrollTop documentHeight viewportHeight sp) = Percent p \<and>
      (\<not> inThrottle sp \<longrightarrow>
         bar_width (on_scroll scrollTop documentHeight viewportHeight sp) = Percent p)"
    by (auto simp: progress_update_def on_scroll_def)
next
  assume e: "documentHeight = viewportHeight"
  have z: "js_sub (Fin (of_int viewportHeight)) (Fin (of_int viewportHeight)) = Fin 0"
    using docHeight_exact[of viewportHeight viewportHeight] by simp
  show sp: "scrollPercent scrollTop documentHeight viewportHeight =
        (if scrollTop = 0 then NaN else PosInf)"
    unfolding scrollPercent_def Let_def e z using assms(1) by simp
  show "bar_width (progress_update scrollTop documentHeight viewportHeight sp) = bar_width sp"
    unfolding progress_update_def sp by simp
qed

lemma to_double_7_25: "to_double (7 / 25) = Fin (1261007895663739 / 4503599627370496)"
proof -
  have "to_double (7 / 25) =
          Fin (sgn (7 / 25) * (of_int (round_half_even (\<bar>7 / 25\<bar> / quantum \<bar>7 / 25\<bar>)) *
                                 quantum \<bar>7 / 25\<bar>))"
    by (rule to_double_finite) simp_all
  moreover have "sgn (7 / 25) * (of_int (round_half_even (\<bar>7 / 25\<bar> / quantum \<bar>7 / 25\<bar>)) *
                                 quantum \<bar>7 / 25\<bar>) = (1261007895663739 / 4503599627370496 :: rat)"
    by code_simp
  ultimately show ?thesis by (simp only:)
qed

lemma to_double_28: "to_double (1261007895663739 / 4503599627370496 * 100) =
    Fin (7881299347898369 / 281474976710656)"
proof -
  let ?x = "1261007895663739 / 4503599627370496 * 100 :: rat"
  have "to_double ?x =
          Fin (sgn ?x * (of_int (round_half_even (\<bar>?x\<bar> / quantum \<bar>?x\<bar>)) * quantum \<bar>?x\<bar>))"
    by (rule to_double_finite) simp_all
  moreover have "sgn ?x * (of_int (round_half_even (\<bar>?x\<bar> / quantum \<bar>?x\<bar>)) * quantum \<bar>?x\<bar>) =
                 (7881299347898369 / 281474976710656 :: rat)"
    by code_simp
  ultimately show ?thesis by (simp only:)
qed

text \<open>
  C7, as stated, fails: at scroll position 7 in a document of height 825 under a viewport
  of height 800 the handler computes \<open>(7 / 25) * 100\<close> in doubles, which is
  \<open>7881299347898369 / 2 ^ 48\<close> (printed \<^verbatim>\<open>28.000000000000004\<close>), not 28, and that is
  the percentage it writes.
\<close>

theorem scroll_progress_percent_counterexample:
  "scrollPercent 7 825 800 = Fin (7881299347898369 / 281474976710656) \<and>
   scrollPercent 7 825 800 \<noteq> Fin (100 * 7 / of_int (825 - 800)) \<and>
   bar_width (progress_update 7 825 800 \<lparr>bar_width = NoWidth, inThrottle = False\<rparr>) \<noteq>
     Percent (100 * 7 / of_int (825 - 800))"
proof -
  have d: "js_sub (Fin (of_int 825)) (Fin (of_int 800)) = Fin (of_int (825 - 800))"
    by (rule docHeight_exact) simp
  have "scrollPercent 7 825 800 = js_mul (js_div (Fin 7) (Fin 25)) (Fin 100)"
    unfolding scrollPercent_def Let_def d by simp
  also have "js_div (Fin 7) (Fin 25) = to_double (7 / 25)" by simp
  also have "\<dots> = Fin (1261007895663739 / 4503599627370496)" by (rule to_double_7_25)
  also have "js_mul (Fin (1261007895663739 / 4503599627370496)) (Fin 100) =
             to_double (1261007895663739 / 4503599627370496 * 100)"
    by (simp only: js_mul.simps)
  also have "\<dots> = Fin (7881299347898369 / 281474976710656)" by (rule to_double_28)
  finally have v: "scrollPercent 7 825 800 = Fin (7881299347898369 / 281474976710656)" .
  then show ?thesis by (simp add: progress_update_def)
qed

theorem scroll_progress_percent_witness:
  "(0::rat) \<le> 300 \<and> (2000::int) - 800 \<le> 2 ^ 53 \<and> (800::int) < 2000 \<and>
   (300::rat) \<le> of_int (2000 - 800) \<and>
   (\<exists>p. scrollPercent 300 2000 800 = Fin p \<and>
        \<bar>p - 100 * 300 / of_int (2000 - 800)\<bar> \<le>
          100 * 300 / of_int (2000 - 800) / 2 ^ 51 + 1 / 2 ^ 1068 \<and>
        bar_width (on_scroll 300 2000 800 \<lparr>bar_width = NoWidth, inThrottle = False\<rparr>) = Percent p) \<and>
   scrollPercent 0 800 800 = NaN \<and>
   bar_width (progress_update 0 800 800 \<lparr>bar_width = NoWidth, inThrottle = False\<rparr>) = NoWidth"
proof -
  let ?sp = "\<lparr>bar_width = NoWidth, inThrottle = False\<rparr>"
  have h: "(0::rat) \<le> 300" "(0::rat) \<le> 0" "(2000::int) - 800 \<le> 2 ^ 53"
    "(800::int) - 800 \<le> 2 ^ 53" by simp_all
  have prem: "(800::int) < 2000 \<and> (300::rat) \<le> of_int (2000 - 800)" by simp
  note a = scroll_progress_percent[OF h(1) h(3), of ?sp, THEN conjunct1, rule_format, OF prem]
  note b = scroll_progress_percent[OF h(2) h(4), of ?sp, THEN conjunct2, rule_format, OF refl]
  from a obtain p where
    p: "scrollPercent 300 2000 800 = Fin p"
      "\<bar>p - 100 * 300 / of_int (2000 - 800)\<bar> \<le>
         100 * 300 / of_int (2000 - 800) / 2 ^ 51 + 1 / 2 ^ 1068"
      "\<not> inThrottle ?sp \<longrightarrow> bar_width (on_scroll 300 2000 800 ?sp) = Percent p"
    by blast
  from p(3) have o: "bar_width (on_scroll 300 2000 800 ?sp) = Percent p" by simp
  from p(1,2) o have e: "\<exists>p. scrollPercent 300 2000 800 = Fin p \<and>
        \<bar>p - 100 * 300 / of_int (2000 - 800)\<bar> \<le>
          100 * 300 / of_int (2000 - 800) / 2 ^ 51 + 1 / 2 ^ 1068 \<and>
        bar_width (on_scroll 300 2000 800 ?sp) = Percent p"
    by blast
  from b have n: "scrollPercent 0 800 800 = NaN"
    "bar_width (progress_update 0 800 800 ?sp) = NoWidth" by simp_all
  from h prem e n show ?thesis by (intro conjI) simp_all
qed

section \<open>Properties of the counter animation\<close>

lemma js_10: "js ''10'' = [49, 48]"
  by (simp add: js_def)

lemma parseInt_010: "parseInt (js ''010'') = Fin 10"
proof -
  have "parseInt (js ''010'') = to_double (of_int 10)"
    by (simp add: parseInt_def js_def is_space_def is_digit_def digit_of_def digits_value_def)
  then show ?thesis using to_double_of_int[of 10] by simp
qed

lemma parseInt_10: "parseInt (js ''10'') = Fin 10"
proof -
  have "parseInt (js ''10'') = to_double (of_int 10)"
    by (simp add: parseInt_def js_def is_space_def is_digit_def digit_of_def digits_value_def)
  then show ?thesis using to_double_of_int[of 10] by simp
qed

lemma parseInt_50: "parseInt (js ''50'') = Fin 50"
proof -
  have "parseInt (js ''50'') = to_double (of_int 50)"
    by (simp add: parseInt_def js_def is_space_def is_digit_def digit_of_def digits_value_def)
  then show ?thesis using to_double_of_int[of 50] by simp
qed

lemma number_toString_10: "number_toString 10 = js ''10''"
  by (simp add: number_toString_def dec_nat.simps js_def)

lemma js_toString_int:
  assumes "\<bar>k\<bar> \<le> 2 ^ 53"
  shows "js_toString (Fin (of_int k)) = Some (number_toString k)"
proof -
  have "\<bar>of_int k :: rat\<bar> \<le> 2 ^ 53"
  proof -
    have "\<bar>of_int k :: rat\<bar> = of_int \<bar>k\<bar>" by simp
    also have "\<dots> \<le> of_int (2 ^ 53)" using assms by (simp only: of_int_le_iff)
    finally show ?thesis by simp
  qed
  then show ?thesis by (simp add: js_toString_def)
qed

lemma step_125: "js_div (Fin 2000) (Fin 16) = Fin 125"
proof -
  have "js_div (Fin 2000) (Fin 16) = to_double (of_int 125)" by simp
  then show ?thesis using to_double_of_int[of 125] by simp
qed

text \<open>One frame from a current value below a positive target.\<close>

lemma frame_progress:
  fixes N :: int and s c :: rat
  assumes N: "1 \<le> N" "N \<le> 2 ^ 53"
    and s: "of_int N / 126 \<le> s" "s \<le> of_int N / 124"
    and c: "0 \<le> c" "c \<le> of_int N"
  shows "\<exists>y. js_add (Fin c) (Fin s) = Fin y \<and> c + of_int N / 252 \<le> y \<and> 0 \<le> y"
proof -
  define M :: rat where "M = of_int N"
  define t :: rat where "t = 1 / 2 ^ 1075"
  have M1: "1 \<le> M" using N(1) by (simp add: M_def)
  have M53: "M \<le> 2 ^ 53"
  proof -
    have "(of_int N :: rat) \<le> of_int (2 ^ 53)" using N(2) by (simp only: of_int_le_iff)
    then show ?thesis by (simp add: M_def)
  qed
  have s': "M / 126 \<le> s" "s \<le> M / 124" using s by (simp_all add: M_def)
  have c': "0 \<le> c" "c \<le> M" using c by (simp_all add: M_def)
  have x0: "0 \<le> c + s" using c'(1) s'(1) M1 by simp
  have x2: "c + s \<le> 2 * M" using c'(2) s'(2) M1 by linarith
  have "\<bar>c + s\<bar> \<le> 2 ^ 1000"
  proof -
    have "\<bar>c + s\<bar> \<le> 2 * 2 ^ 53" using x0 x2 M53 by linarith
    also have "(2 * 2 ^ 53 :: rat) \<le> 2 ^ 1000" by simp
    finally show ?thesis .
  qed
  from to_double_error[OF this] x0 obtain y where
    y: "to_double (c + s) = Fin y" "\<bar>y - (c + s)\<bar> \<le> \<bar>c + s\<bar> / 2 ^ 53 + 1 / 2 ^ 1075" "0 \<le> y"
    by auto
  have ax: "\<bar>c + s\<bar> = c + s" using x0 by simp
  have e1: "(c + s) / 2 ^ 53 \<le> M / 1000"
  proof -
    have "(c + s) / 2 ^ 53 \<le> 2 * M / 2 ^ 53" using x2 by (rule divide_right_mono) simp
    also have "\<dots> \<le> M / 1000" using M1 by (simp add: field_simps)
    finally show ?thesis .
  qed
  have e2: "t \<le> M / 1000"
  proof -
    have "t \<le> 1 / 1000" by (simp add: t_def)
    also have "\<dots> \<le> M / 1000" using M1 by simp
    finally show ?thesis .
  qed
  from y(2) have "c + s - ((c + s) / 2 ^ 53 + t) \<le> y" unfolding ax t_def by linarith
  then have "c + M / 252 \<le> y" using e1 e2 s'(1) M1 by linarith
  with y(1,3) show ?thesis by (auto simp: M_def)
qed

lemma updateCounter_positive:
  fixes N :: int and s c :: rat
  assumes N: "1 \<le> N" "N \<le> 2 ^ 53"
    and s: "of_int N / 126 \<le> s" "s \<le> of_int N / 124"
    and c: "0 \<le> c" "c \<le> of_int N" "of_int N \<le> c + of_nat n * (of_int N / 252)"
  shows "updateCounter (Fin (of_int N)) (Fin s) (Fin c) cnt =
           Some (Final (cnt\<lparr>textContent := number_toString N @ counter_suffix cnt\<rparr>))"
  using c
proof (induction n arbitrary: c cnt)
  case 0
  from frame_progress[OF N s "0.prems"(1,2)] obtain y where
    y: "js_add (Fin c) (Fin s) = Fin y" "c + of_int N / 252 \<le> y" by blast
  have y': "to_double (c + s) = Fin y" using y(1) by simp
  have "(0::rat) < of_int N / 252" using N(1) by simp
  then have "\<not> y < of_int N" using y(2) "0.prems"(3) by simp
  then show ?case
    using js_toString_int[of N] N
    by (subst updateCounter.simps) (simp add: y')
next
  case (Suc n)
  from frame_progress[OF N s Suc.prems(1,2)] obtain y where
    y: "js_add (Fin c) (Fin s) = Fin y" "c + of_int N / 252 \<le> y" "0 \<le> y" by blast
  have y': "to_double (c + s) = Fin y" using y(1) by simp
  show ?case
  proof (cases "y < of_int N")
    case False
    then show ?thesis
      using js_toString_int[of N] N
      by (subst updateCounter.simps) (simp add: y')
  next
    case True
    have fl: "0 \<le> \<lfloor>y\<rfloor>" "\<lfloor>y\<rfloor> \<le> N" using y(3) True by (simp_all add: floor_le_iff le_floor_iff)
    have "\<bar>\<lfloor>y\<rfloor>\<bar> \<le> 2 ^ 53" using fl N(2) by linarith
    from js_toString_int[OF this]
    have rendered: "js_toString (Fin (of_int \<lfloor>y\<rfloor>)) = Some (number_toString \<lfloor>y\<rfloor>)" .
    let ?cnt = "cnt\<lparr>textContent := number_toString \<lfloor>y\<rfloor> @ counter_suffix cnt\<rparr>"
    have pre: "of_int N \<le> y + of_nat n * (of_int N / 252)"
    proof -
      have "of_nat (Suc n) * (of_int N / 252) = of_int N / 252 + of_nat n * (of_int N / (252::rat))"
        by (simp add: algebra_simps)
      with Suc.prems(3) y(2) show ?thesis by linarith
    qed
    have ih: "updateCounter (Fin (of_int N)) (Fin s) (Fin y) ?cnt =
                Some (Final (?cnt\<lparr>textContent := number_toString N @ counter_suffix ?cnt\<rparr>))"
      using True by (intro Suc.IH y(3) pre) simp
    have "updateCounter (Fin (of_int N)) (Fin s) (Fin c) cnt =
            updateCounter (Fin (of_int N)) (Fin s) (Fin y) ?cnt"
      using True by (subst updateCounter.simps) (simp add: y' rendered)
    with ih show ?thesis by (simp add: counter_suffix_def)
  qed
qed


lemma step_positive:
  fixes N :: int
  assumes "1 \<le> N" "N \<le> 2 ^ 53"
  shows "\<exists>s. js_div (Fin (of_int N)) (Fin 125) = Fin s \<and> of_int N / 126 \<le> s \<and> s \<le> of_int N / 124"
proof -
  define M :: rat where "M = of_int N"
  define t :: rat where "t = 1 / 2 ^ 1075"
  have M1: "1 \<le> M" using assms(1) by (simp add: M_def)
  have M53: "M \<le> 2 ^ 53"
  proof -
    have "(of_int N :: rat) \<le> of_int (2 ^ 53)" using assms(2) by (simp only: of_int_le_iff)
    then show ?thesis by (simp add: M_def)
  qed
  have x0: "0 \<le> M / 125" using M1 by simp
  have "\<bar>M / 125\<bar> \<le> 2 ^ 1000"
  proof -
    have "\<bar>M / 125\<bar> \<le> 2 ^ 53" using M1 M53 by simp
    also have "(2 ^ 53 :: rat) \<le> 2 ^ 1000" by simp
    finally show ?thesis .
  qed
  from to_double_error[OF this] obtain s where
    s: "to_double (M / 125) = Fin s" "\<bar>s - M / 125\<bar> \<le> \<bar>M / 125\<bar> / 2 ^ 53 + 1 / 2 ^ 1075"
    by auto
  have ax: "\<bar>M / 125\<bar> = M / 125" using x0 by simp
  have e1: "M / 125 / 2 ^ 53 \<le> M / 1000000" using M1 by (simp add: field_simps)
  have e2: "t \<le> M / 1000000"
  proof -
    have "t \<le> 1 / 1000000" by (simp add: t_def)
    also have "\<dots> \<le> M / 1000000" using M1 by simp
    finally show ?thesis .
  qed
  from s(2) have "s \<le> M / 125 + (M / 125 / 2 ^ 53 + t)" "M / 125 - (M / 125 / 2 ^ 53 + t) \<le> s"
    unfolding ax t_def by linarith+
  then have "M / 126 \<le> s" "s \<le> M / 124" using e1 e2 M1 by linarith+
  moreover have "js_div (Fin (of_int N)) (Fin 125) = Fin s" using s(1) by (simp add: M_def)
  ultimately show ?thesis unfolding M_def by blast
qed

lemma first_frame_nonpositive:
  fixes N :: int
  assumes "N \<le> 0" "\<bar>N\<bar> \<le> 2 ^ 53"
  shows "\<exists>s y. js_div (Fin (of_int N)) (Fin 125) = Fin s \<and> js_add (Fin 0) (Fin s) = Fin y \<and>
           \<not> y < of_int N"
proof (cases "N = 0")
  case True
  have "to_double 0 = Fin 0" by (simp add: to_double_def)
  then show ?thesis using True by simp
next
  case False
  define M :: rat where "M = - of_int N"
  define t :: rat where "t = 1 / 2 ^ 1075"
  have M1: "1 \<le> M" using assms(1) False by (simp add: M_def)
  have M53: "M \<le> 2 ^ 53"
  proof -
    have "(of_int (- N) :: rat) \<le> of_int (2 ^ 53)" using assms by (simp only: of_int_le_iff)
    then show ?thesis by (simp add: M_def)
  qed
  have t2: "t \<le> M / 1000"
  proof -
    have "t \<le> 1 / 1000" by (simp add: t_def)
    also have "\<dots> \<le> M / 1000" using M1 by simp
    finally show ?thesis .
  qed
  have ax: "\<bar>- M / 125\<bar> = M / 125" using M1 by simp
  have "\<bar>- M / 125\<bar> \<le> 2 ^ 1000"
  proof -
    have "\<bar>- M / 125\<bar> \<le> 2 ^ 53" unfolding ax using M1 M53 by simp
    also have "(2 ^ 53 :: rat) \<le> 2 ^ 1000" by simp
    finally show ?thesis .
  qed
  from to_double_error[OF this] obtain s where
    s: "to_double (- M / 125) = Fin s" "\<bar>s - (- M / 125)\<bar> \<le> \<bar>- M / 125\<bar> / 2 ^ 53 + 1 / 2 ^ 1075"
      "s \<le> 0"
    using M1 by auto
  have e1: "M / 125 / 2 ^ 53 \<le> M / 1000" using M1 by (simp add: field_simps)
  from s(2) have sl: "- M / 125 - (M / 125 / 2 ^ 53 + t) \<le> s"
    unfolding ax t_def by linarith
  then have s100: "- M / 100 \<le> s" using e1 t2 M1 by linarith
  have as: "\<bar>s\<bar> \<le> M / 100" using s100 s(3) by linarith
  have "\<bar>s\<bar> \<le> 2 ^ 1000"
  proof -
    have "\<bar>s\<bar> \<le> 2 ^ 53" using as M53 M1 by linarith
    also have "(2 ^ 53 :: rat) \<le> 2 ^ 1000" by simp
    finally show ?thesis .
  qed
  from to_double_error[OF this] obtain y where
    y: "to_double s = Fin y" "\<bar>y - s\<bar> \<le> \<bar>s\<bar> / 2 ^ 53 + 1 / 2 ^ 1075"
    by auto
  have e3: "\<bar>s\<bar> / 2 ^ 53 \<le> M / 1000"
  proof -
    have "\<bar>s\<bar> / 2 ^ 53 \<le> M / 100 / 2 ^ 53" using as by (rule divide_right_mono) simp
    also have "\<dots> \<le> M / 1000" using M1 by (simp add: field_simps)
    finally show ?thesis .
  qed
  from y(2) have "s - (\<bar>s\<bar> / 2 ^ 53 + t) \<le> y" unfolding t_def by linarith
  then have "- M \<le> y" using e3 t2 s100 M1 by linarith
  then have "\<not> y < of_int N" by (simp add: M_def)
  moreover have "js_div (Fin (of_int N)) (Fin 125) = Fin s"
    using s(1) by (simp add: M_def)
  moreover have "js_add (Fin 0) (Fin s) = Fin y" using y(1) by simp
  ultimately show ?thesis by blast
qed

lemma animateCounter_final:
  assumes "parseInt (data_count c) = Fin (of_int N)" "\<bar>N\<bar> \<le> 2 ^ 53"
  shows "animateCounter c =
           Some (Final (c\<lparr>textContent := number_toString N @ counter_suffix c\<rparr>))"
proof (cases "1 \<le> N")
  case True
  then have N: "1 \<le> N" "N \<le> 2 ^ 53" using assms(2) by simp_all
  from step_positive[OF N] obtain s where
    s: "js_div (Fin (of_int N)) (Fin 125) = Fin s" "of_int N / 126 \<le> s" "s \<le> of_int N / 124"
    by blast
  have start: "(0::rat) \<le> 0" "(0::rat) \<le> of_int N"
    "(of_int N :: rat) \<le> 0 + of_nat 252 * (of_int N / 252)"
    using N(1) by simp_all
  from updateCounter_positive[OF N s(2,3) start, of c] show ?thesis
    unfolding animateCounter_def Let_def assms(1) step_125 s(1) .
next
  case False
  then have N: "N \<le> 0" by simp
  from first_frame_nonpositive[OF N assms(2)] obtain s y where
    s: "js_div (Fin (of_int N)) (Fin 125) = Fin s" "js_add (Fin 0) (Fin s) = Fin y"
      "\<not> y < of_int N"
    by blast
  have "updateCounter (Fin (of_int N)) (Fin s) (Fin 0) c =
          Some (Final (c\<lparr>textContent := number_toString N @ counter_suffix c\<rparr>))"
    using s(3) js_toString_int[OF assms(2)]
    by (subst updateCounter.simps) (simp add: s(2)[simplified])
  then show ?thesis
    unfolding animateCounter_def Let_def assms(1) step_125 s(1) .
qed

text \<open>
  C6, amended.  For a counter whose \<^verbatim>\<open>data-count\<close> attribute \<^verbatim>\<open>parseInt\<close> reads as the
  integer \<open>N\<close>, of magnitude at most \<open>2 ^ 53\<close>, the animation ends, and the final text is
  \<^verbatim>\<open>10\<close> when the attribute text is the string \<^verbatim>\<open>10\<close>, and the decimal rendering of
  \<open>N\<close> followed by \<^verbatim>\<open>K+\<close> for every other attribute text, also one that reads as 10.
\<close>

theorem counter_final_text:
  assumes "parseInt (data_count c) = Fin (of_int N)" "\<bar>N\<bar> \<le> 2 ^ 53"
  shows "animateCounter c =
           Some (Final (c\<lparr>textContent :=
                   (if data_count c = js ''10'' then js ''10''
                    else number_toString N @ js ''K+'')\<rparr>))"
proof (cases "data_count c = js ''10''")
  case True
  with assms(1) parseInt_10 have "N = 10" by simp
  with animateCounter_final[OF assms] True show ?thesis
    by (simp add: counter_suffix_def number_toString_10) (simp add: js_def)
next
  case False
  with animateCounter_final[OF assms] show ?thesis by (simp add: counter_suffix_def)
qed

text \<open>
  C6, as stated, fails: the attribute text \<^verbatim>\<open>010\<close> declares the target 10, and the final
  text is \<^verbatim>\<open>10K+\<close>, not \<^verbatim>\<open>10\<close>; the handler compares the attribute text, not the
  target, with \<^verbatim>\<open>10\<close>.
\<close>

theorem counter_final_text_counterexample:
  "parseInt (js ''010'') = Fin 10 \<and>
   animateCounter \<lparr>data_count = js ''010'', textContent = js ''0''\<rparr> =
     Some (Final \<lparr>data_count = js ''010'', textContent = js ''10K+''\<rparr>) \<and>
   js ''10K+'' \<noteq> js ''10''"
proof -
  have p: "parseInt (data_count \<lparr>data_count = js ''010'', textContent = js ''0''\<rparr>) =
             Fin (of_int 10)"
    using parseInt_010 by simp
  have b: "\<bar>10 :: int\<bar> \<le> 2 ^ 53" by simp
  from animateCounter_final[OF p b] parseInt_010 show ?thesis
    by (simp add: counter_suffix_def number_toString_10) (simp add: js_def)
qed

theorem counter_final_text_witness:
  "parseInt (data_count \<lparr>data_count = js ''50'', textContent = js ''0''\<rparr>) = Fin (of_int 50) \<and>
   \<bar>50 :: int\<bar> \<le> 2 ^ 53 \<and>
   animateCounter \<lparr>data_count = js ''50'', textContent = js ''0''\<rparr> =
     Some (Final \<lparr>data_count = js ''50'', textContent = js ''50K+''\<rparr>) \<and>
   parseInt (data_count \<lparr>data_count = js ''10'', textContent = js ''0''\<rparr>) = Fin (of_int 10) \<and>
   animateCounter \<lparr>data_count = js ''10'', textContent = js ''0''\<rparr> =
     Some (Final \<lparr>data_count = js ''10'', textContent = js ''10''\<rparr>)"
proof -
  have p50: "parseInt (data_count \<lparr>data_count = js ''50'', textContent = js ''0''\<rparr>) =
             Fin (of_int 50)"
    using parseInt_50 by simp
  have p10: "parseInt (data_count \<lparr>data_count = js ''10'', textContent = js ''0''\<rparr>) =
             Fin (of_int 10)"
    using parseInt_10 by simp
  have b: "\<bar>50 :: int\<bar> \<le> 2 ^ 53" "\<bar>10 :: int\<bar> \<le> 2 ^ 53" by simp_all
  have n: "number_toString 50 = js ''50''"
    by (simp add: number_toString_def dec_nat.simps js_def)
  have d: "js ''50'' \<noteq> js ''10''" by (simp add: js_def)
  from counter_final_text[OF p50 b(1)] counter_final_text[OF p10 b(2)] p50 p10 b n d
  show ?thesis by (simp add: js_def)
qed

end
